theory Spec2Isabelle
  imports
    Main
    "HOL-Library.AList"
    "HOL-Library.Char_ord"
    "HOL-Library.List_Lexorder"
    "HOL-Library.Multiset"
    "HOL-Library.Sublist"
begin

section \<open>Values of the host language\<close>

text \<open>
  A thrown value: its constructor name, its message and the \<open>statusCode\<close> property that
  \<open>retryWithBackoff\<close> inspects (absent on most errors).
\<close>

datatype js_error = Thrown (err_name: string) (err_message: string) (statusCode: "int option")

text \<open>
  A JSON-like value. An object is the list of its own properties in enumeration order;
  a well-formed object has pairwise distinct keys. Numbers are integers (timestamps and
  numeric ids); non-finite and fractional numbers are outside the model.
\<close>

datatype json =
    JNull
  | JBool bool
  | JNum int
  | JStr string
  | JArr "json list"
  | JObj "(string \<times> json) list"

text \<open>Truthiness of a property read: \<open>None\<close> is \<open>undefined\<close>.\<close>

fun truthy :: "json option \<Rightarrow> bool" where
  "truthy None = False"
| "truthy (Some JNull) = False"
| "truthy (Some (JBool b)) = b"
| "truthy (Some (JNum n)) = (n \<noteq> 0)"
| "truthy (Some (JStr s)) = (s \<noteq> [])"
| "truthy (Some (JArr _)) = True"
| "truthy (Some (JObj _)) = True"

text \<open>Property read \<open>v.k\<close> on a value that is known not to be null or undefined.\<close>

fun get_prop :: "json \<Rightarrow> string \<Rightarrow> json option" where
  "get_prop (JObj kvs) k = map_of kvs k"
| "get_prop _ k = None"

text \<open>Optional chaining \<open>v?.k\<close>: undefined when \<open>v\<close> is null or undefined.\<close>

fun prop_opt :: "json option \<Rightarrow> string \<Rightarrow> json option" where
  "prop_opt None k = None"
| "prop_opt (Some v) k = get_prop v k"

text \<open>Plain member access \<open>v.k\<close>: a TypeError when \<open>v\<close> is null or undefined.\<close>

fun prop_strict :: "json option \<Rightarrow> string \<Rightarrow> js_error + json option" where
  "prop_strict None k = Inl (Thrown ''TypeError'' ''Cannot read properties of undefined'' None)"
| "prop_strict (Some JNull) k = Inl (Thrown ''TypeError'' ''Cannot read properties of null'' None)"
| "prop_strict (Some v) k = Inr (get_prop v k)"

subsection \<open>Decimal numerals and JSON text\<close>

definition digit_char :: "nat \<Rightarrow> char" where
  "digit_char d = ''0123456789'' ! (d mod 10)"

fun string_of_nat :: "nat \<Rightarrow> string" where
  "string_of_nat n =
     (if n < 10 then [digit_char n] else string_of_nat (n div 10) @ [digit_char (n mod 10)])"

definition string_of_int :: "int \<Rightarrow> string" where
  "string_of_int i = (if i < 0 then CHR ''-'' # string_of_nat (nat (- i)) else string_of_nat (nat i))"

definition hex_char :: "nat \<Rightarrow> char" where
  "hex_char d = ''0123456789abcdef'' ! (d mod 16)"

text \<open>The escapes of \<open>JSON.stringify\<close> for one character of a string.\<close>

definition escape_char :: "char \<Rightarrow> string" where
  "escape_char c =
     (if c = CHR 0x22 then [CHR 0x5C, CHR 0x22]
      else if c = CHR 0x5C then [CHR 0x5C, CHR 0x5C]
      else if c = CHR 0x08 then [CHR 0x5C, CHR ''b'']
      else if c = CHR 0x0C then [CHR 0x5C, CHR ''f'']
      else if c = CHR 0x0A then [CHR 0x5C, CHR ''n'']
      else if c = CHR 0x0D then [CHR 0x5C, CHR ''r'']
      else if c = CHR 0x09 then [CHR 0x5C, CHR ''t'']
      else if (of_char c :: nat) < 32
        then [CHR 0x5C, CHR ''u'', CHR ''0'', CHR ''0'',
              hex_char (of_char c div 16), hex_char (of_char c mod 16)]
      else [c])"

definition quote :: "string \<Rightarrow> string" where
  "quote s = [CHR 0x22] @ concat (map escape_char s) @ [CHR 0x22]"

fun join :: "string \<Rightarrow> string list \<Rightarrow> string" where
  "join sep [] = []"
| "join sep [x] = x"
| "join sep (x # y # ys) = x @ sep @ join sep (y # ys)"

text \<open>\<open>JSON.stringify\<close> without indentation: members in the object's enumeration order.\<close>

fun JSON_stringify :: "json \<Rightarrow> string" where
  "JSON_stringify JNull = ''null''"
| "JSON_stringify (JBool b) = (if b then ''true'' else ''false'')"
| "JSON_stringify (JNum n) = string_of_int n"
| "JSON_stringify (JStr s) = quote s"
| "JSON_stringify (JArr xs) = ''['' @ join '','' (map JSON_stringify xs) @ '']''"
| "JSON_stringify (JObj kvs) =
     ''{'' @ join '','' (map (\<lambda>kv. quote (fst kv) @ '':'' @ JSON_stringify (snd kv)) kvs) @ ''}''"

text \<open>String conversion as a template literal performs it on a property read.\<close>

fun js_String :: "json option \<Rightarrow> string" where
  "js_String None = ''undefined''"
| "js_String (Some JNull) = ''null''"
| "js_String (Some (JBool b)) = (if b then ''true'' else ''false'')"
| "js_String (Some (JNum n)) = string_of_int n"
| "js_String (Some (JStr s)) = s"
| "js_String (Some (JArr xs)) = join '','' (map (\<lambda>x. case x of JNull \<Rightarrow> [] | _ \<Rightarrow> js_String (Some x)) xs)"
| "js_String (Some (JObj _)) = ''[object Object]''"

section \<open>Canonical signer\<close>

text \<open>
  Modelled from the spec: \<open>sortObjectKeys.ts\<close> is imported by the signer and by the
  channel but is not among the sources. The spec describes it as recursively sorting all
  mapping keys lexicographically; arrays keep their order and their elements are sorted
  inside, other values are returned as they are.
\<close>

fun sortObjectKeys :: "json \<Rightarrow> json" where
  "sortObjectKeys (JObj kvs) =
     JObj (sort_key fst (map (\<lambda>kv. (fst kv, sortObjectKeys (snd kv))) kvs))"
| "sortObjectKeys (JArr xs) = JArr (map sortObjectKeys xs)"
| "sortObjectKeys v = v"

text \<open>
  The signature an external wallet produces is a symbolic term: a deterministic function
  of the key and of the exact bytes signed, different bytes giving different signatures.
\<close>

datatype signature = Signature (signing_key: string) (signed_bytes: string)

text \<open>
  The wallet constructor rejects a key that is not 32 bytes of hexadecimal digits,
  with or without the \<open>0x\<close> prefix.
\<close>

definition is_hex_digit :: "char \<Rightarrow> bool" where
  "is_hex_digit c = (c \<in> set ''0123456789abcdefABCDEF'')"

definition valid_privateKey :: "string \<Rightarrow> bool" where
  "valid_privateKey k =
     (let body = (if take 2 k = ''0x'' then drop 2 k else k)
      in length body = 64 \<and> list_all is_hex_digit body)"

definition Wallet_signMessage :: "string \<Rightarrow> string \<Rightarrow> js_error + signature" where
  "Wallet_signMessage privateKey messageString =
     (if valid_privateKey privateKey then Inr (Signature privateKey messageString)
      else Inl (Thrown ''Error'' ''invalid private key'' None))"

text \<open>
  The payload after the timestamp check of \<open>signMessage\<close>: assigning to an existing
  property keeps its position, assigning to a missing one appends it.
\<close>

definition ensure_timestamp :: "int \<Rightarrow> (string \<times> json) list \<Rightarrow> (string \<times> json) list" where
  "ensure_timestamp now content =
     (if \<not> truthy (map_of content ''timestamp'')
      then AList.update ''timestamp'' (JNum now) content
      else content)"

text \<open>The exact text handed to the wallet.\<close>

definition messageString :: "(string \<times> json) list \<Rightarrow> string" where
  "messageString content = JSON_stringify (sortObjectKeys (JObj content))"

text \<open>
  \<open>signMessage content privateKey\<close> at clock reading \<open>now\<close>. The first component is
  the caller's payload object after the call (it is mutated in place, also when signing
  then fails); the second is the signature or the rethrown error.
\<close>

definition signMessage ::
  "int \<Rightarrow> (string \<times> json) list \<Rightarrow> string \<Rightarrow> (string \<times> json) list \<times> (js_error + signature)" where
  "signMessage now content privateKey =
     (let content' = ensure_timestamp now content
      in (content',
          case Wallet_signMessage privateKey (messageString content') of
            Inl e \<Rightarrow> Inl (Thrown ''Error'' (''Failed to sign message: '' @ err_message e) None)
          | Inr sg \<Rightarrow> Inr sg))"

text \<open>The payload builders of \<open>createMessageContent\<close>, in the field order of the source.\<close>

definition createMessageContent_agent ::
  "int \<Rightarrow> int \<Rightarrow> int \<Rightarrow> int \<Rightarrow> string \<Rightarrow> (string \<times> json) list" where
  "createMessageContent_agent now roomId roundId agentId txt =
     [(''timestamp'', JNum now), (''roomId'', JNum roomId), (''roundId'', JNum roundId),
      (''agentId'', JNum agentId), (''text'', JStr txt)]"

definition createMessageContent_auth ::
  "int \<Rightarrow> string \<Rightarrow> int \<Rightarrow> int \<Rightarrow> (string \<times> json) list" where
  "createMessageContent_auth now walletAddress agentId roomId =
     [(''timestamp'', JNum now), (''walletAddress'', JStr walletAddress),
      (''agentId'', JNum agentId), (''roomId'', JNum roomId)]"

definition createMessageContent_heartbeat :: "int \<Rightarrow> (string \<times> json) list" where
  "createMessageContent_heartbeat now = [(''timestamp'', JNum now)]"

text \<open>
  Two constructions of one payload: the same keys with the same values, the members of
  every object possibly assembled in another order, at every depth.
\<close>

inductive reordered :: "json \<Rightarrow> json \<Rightarrow> bool" where
  same: "reordered v v"
| arr: "list_all2 reordered xs ys \<Longrightarrow> reordered (JArr xs) (JArr ys)"
| obj: "distinct (map fst xs) \<Longrightarrow> distinct (map fst ys) \<Longrightarrow>
        set (map fst xs) = set (map fst ys) \<Longrightarrow>
        (\<And>k v w. (k, v) \<in> set xs \<Longrightarrow> (k, w) \<in> set ys \<Longrightarrow> reordered v w) \<Longrightarrow>
        reordered (JObj xs) (JObj ys)"

section \<open>Message context\<close>

text \<open>
  \<open>AgentClient.updateMessageContext\<close> and \<open>PVPVAIIntegration.updateMessageContext\<close>
  have the same body and the same bound; they differ in the type of the entries only,
  which is a parameter here. \<open>shift\<close> removes the first element (and leaves an empty
  array empty), \<open>push\<close> appends.
\<close>

definition MAX_CONTEXT_SIZE :: nat where
  "MAX_CONTEXT_SIZE = 8"

definition updateMessageContext :: "'e list \<Rightarrow> 'e \<Rightarrow> 'e list" where
  "updateMessageContext messageContext entry =
     (if length messageContext \<ge> MAX_CONTEXT_SIZE
      then tl messageContext @ [entry]
      else messageContext @ [entry])"

section \<open>Effect overlay\<close>

text \<open>
  A registry is a \<open>Map\<close>: an association list in insertion order with distinct keys.
  \<open>Map.set\<close> replaces the value of a present key in place and appends a new key;
  \<open>Map.delete\<close> removes the key.
\<close>

record effect =
  effect_type :: string
  find_pat :: string
  replace_by :: string
  caseSensitive :: bool

record pvp_status_message =
  status_type :: string
  action :: effect

definition handlePvPStatusUpdate ::
  "(string \<times> effect) list \<Rightarrow> pvp_status_message \<Rightarrow> (string \<times> effect) list" where
  "handlePvPStatusUpdate activePvPEffects m =
     (if status_type m = ''PVP_ACTION_ENACTED''
        then AList.update (effect_type (action m)) (action m) activePvPEffects
      else if status_type m = ''PVP_STATUS_REMOVED''
        then AList.delete (effect_type (action m)) activePvPEffects
      else activePvPEffects)"

text \<open>
  The registry of \<open>PVPVAIIntegration\<close> stores a \<open>PvPAction\<close> under its target, and
  an action whose \<open>actionType\<close> is empty removes the record of its target.
\<close>

record PvPAction =
  actionType :: string
  targetId :: string
  parameters :: json

definition updatePvPStatus ::
  "(string \<times> PvPAction) list \<Rightarrow> PvPAction \<Rightarrow> (string \<times> PvPAction) list" where
  "updatePvPStatus activePvPEffects a =
     (if actionType a \<noteq> []
      then AList.update (targetId a) a activePvPEffects
      else AList.delete (targetId a) activePvPEffects)"

text \<open>
  A registry of \<open>AgentClient\<close> as \<open>handlePvPStatusUpdate\<close> builds it: every record
  is stored under its own type, and no type has two records.
\<close>

definition keyed_by_type :: "(string \<times> effect) list \<Rightarrow> bool" where
  "keyed_by_type reg = (distinct (map fst reg) \<and> (\<forall>kv \<in> set reg. effect_type (snd kv) = fst kv))"

text \<open>The records of a registry that have a given type.\<close>

definition effects_of_type :: "string \<Rightarrow> (string \<times> effect) list \<Rightarrow> effect list" where
  "effects_of_type T reg = filter (\<lambda>e. effect_type e = T) (map snd reg)"

definition actions_of_type :: "string \<Rightarrow> (string \<times> PvPAction) list \<Rightarrow> PvPAction list" where
  "actions_of_type T reg = filter (\<lambda>a. actionType a = T) (map snd reg)"




text \<open>
  A parsed frame: the two properties of it that the client reads. \<open>None\<close> is a missing
  property.
\<close>

record inbound =
  messageType :: "json option"
  content :: "json option"





definition lower_char :: "char \<Rightarrow> char" where
  "lower_char c =
     (case map_of (zip ''ABCDEFGHIJKLMNOPQRSTUVWXYZ'' ''abcdefghijklmnopqrstuvwxyz'') c of
        None \<Rightarrow> c
      | Some l \<Rightarrow> l)"




section \<open>Retry with backoff\<close>

record config =
  minResponseDelay :: nat
  maxResponseDelay :: nat
  turnDelay :: nat
  gmThinkingTime :: nat
  roundBreak :: nat
  retryDelay :: nat
  maxRetries :: nat

definition orchestrator_config :: config where
  "orchestrator_config =
     \<lparr>minResponseDelay = 15000, maxResponseDelay = 20000, turnDelay = 5000,
      gmThinkingTime = 10000, roundBreak = 30000, retryDelay = 10000, maxRetries = 3\<rparr>"

text \<open>
  What one call of \<open>retryWithBackoff\<close> did: how it ended, how many times it invoked the
  operation, and the backoff delays it slept, in order.
\<close>

record 'a retry_run =
  outcome :: "js_error + 'a"
  calls :: nat
  sleeps :: "nat list"

text \<open>
  The loop of \<open>retryWithBackoff\<close> from index \<open>i\<close>. The operation is invoked afresh in
  every iteration: \<open>operation i\<close> is how its invocation in iteration \<open>i\<close> ends.
  \<open>waitForRateLimit\<close> only suspends and cannot throw. The test \<open>i < retries - 1\<close> is
  written \<open>Suc i < retries\<close>, the same on the integers.
\<close>

function retry_loop ::
  "config \<Rightarrow> (nat \<Rightarrow> js_error + 'a) \<Rightarrow> nat \<Rightarrow> nat \<Rightarrow> 'a retry_run" where
  "retry_loop cfg operation retries i =
     (if i < retries then
        (case operation i of
           Inr v \<Rightarrow> \<lparr>outcome = Inr v, calls = 1, sleeps = []\<rparr>
         | Inl error \<Rightarrow>
             if statusCode error = Some 429 \<and> Suc i < retries then
               (let r = retry_loop cfg operation retries (Suc i)
                in r\<lparr>calls := Suc (calls r), sleeps := (retryDelay cfg * 2 ^ i) # sleeps r\<rparr>)
             else \<lparr>outcome = Inl error, calls = 1, sleeps = []\<rparr>)
      else \<lparr>outcome = Inl (Thrown ''Error'' ''Max retries exceeded'' None), calls = 0, sleeps = []\<rparr>)"
  by pat_completeness auto
termination
  by (relation "measure (\<lambda>(cfg, operation, retries, i). retries - i)") auto

definition retryWithBackoff ::
  "config \<Rightarrow> (nat \<Rightarrow> js_error + 'a) \<Rightarrow> nat \<Rightarrow> 'a retry_run" where
  "retryWithBackoff cfg operation retries = retry_loop cfg operation retries 0"

text \<open>A failure that the loop treats as a rate limit.\<close>

definition rate_limited :: "js_error + 'a \<Rightarrow> bool" where
  "rate_limited r = (case r of Inl e \<Rightarrow> statusCode e = Some 429 | Inr _ \<Rightarrow> False)"

section \<open>Turn orchestrator\<close>

text \<open>
  How one call of a participant's \<open>sendAIMessage\<close> ends, seen from the orchestrator:
  an envelope was emitted, the call returned without sending (no text was generated),
  or it threw.
\<close>

datatype send_outcome = Emitted | Suppressed | SendThrew js_error

text \<open>
  The environment of one turn: whether the runtime has a client, and for the \<open>i\<close>-th
  invocation of the retried operation what \<open>processMessage\<close> returns (\<open>None\<close> is
  \<open>null\<close>) and how \<open>sendAIMessage\<close> ends.
\<close>

record turn_env =
  client_present :: bool
  responses :: "nat \<Rightarrow> string option"
  sends :: "nat \<Rightarrow> send_outcome"

definition send_result :: "send_outcome \<Rightarrow> js_error + bool" where
  "send_result r = (case r of Emitted \<Rightarrow> Inr True | Suppressed \<Rightarrow> Inr False | SendThrew e \<Rightarrow> Inl e)"

text \<open>
  A turn returns whether it emitted an envelope, or the error it threw. The delays before
  the operation only suspend.
\<close>

definition handleGMTurn :: "config \<Rightarrow> turn_env \<Rightarrow> js_error + bool" where
  "handleGMTurn cfg t =
     (if \<not> client_present t then Inr False
      else outcome (retryWithBackoff cfg (\<lambda>i. send_result (sends t i)) (maxRetries cfg)))"

definition handleAgentTurn :: "config \<Rightarrow> turn_env \<Rightarrow> js_error + bool" where
  "handleAgentTurn cfg t =
     (if \<not> client_present t then Inr False
      else outcome (retryWithBackoff cfg
             (\<lambda>i. case responses t i of
                     None \<Rightarrow> Inr False
                   | Some response \<Rightarrow> if response \<noteq> [] then send_result (sends t i) else Inr False)
             (maxRetries cfg)))"

text \<open>
  The environment of one round: the turns, and the value of \<open>isRunning\<close> that the test
  of the inner loop reads before the turn of agent \<open>i\<close> (\<open>stopDebate\<close> may clear the flag
  at any suspension point).
\<close>

record round_env =
  gm_turn :: turn_env
  agent_turn :: "nat \<Rightarrow> turn_env"
  running :: "nat \<Rightarrow> bool"

text \<open>
  The inner loop from index \<open>i\<close>: the participants that emitted, in order, and the error
  that ended the loop, if one did.
\<close>

function agent_turns :: "config \<Rightarrow> round_env \<Rightarrow> 'p list \<Rightarrow> nat \<Rightarrow> 'p list \<times> js_error option" where
  "agent_turns cfg env agents i =
     (if i < length agents \<and> running env i then
        (case handleAgentTurn cfg (agent_turn env i) of
           Inl e \<Rightarrow> ([], Some e)
         | Inr emitted \<Rightarrow>
             (let r = agent_turns cfg env agents (Suc i)
              in ((if emitted then [agents ! i] else []) @ fst r, snd r)))
      else ([], None))"
  by pat_completeness auto
termination
  by (relation "measure (\<lambda>(cfg, env, agents, i). length agents - i)") auto

text \<open>
  One iteration of the loop of \<open>startDebate\<close>: the participants that emitted an
  envelope, in order. An error thrown by a turn is caught by the handler of the iteration,
  which skips the rest of the round.
\<close>

definition debate_round :: "config \<Rightarrow> round_env \<Rightarrow> 'p \<Rightarrow> 'p list \<Rightarrow> 'p list" where
  "debate_round cfg env gameMaster agents =
     (case handleGMTurn cfg (gm_turn env) of
        Inl e \<Rightarrow> []
      | Inr emitted \<Rightarrow> (if emitted then [gameMaster] else []) @ fst (agent_turns cfg env agents 0))"

text \<open>
  The loop itself, run on a finite prefix of its iterations: each element gives the value
  of \<open>isRunning\<close> read by the test of the loop and the environment of the round. The
  result lists the emissions of every round that was run.
\<close>

fun debate_loop :: "config \<Rightarrow> 'p \<Rightarrow> 'p list \<Rightarrow> (bool \<times> round_env) list \<Rightarrow> 'p list list" where
  "debate_loop cfg gameMaster agents [] = []"
| "debate_loop cfg gameMaster agents ((isRunning, env) # rest) =
     (if isRunning
      then debate_round cfg env gameMaster agents # debate_loop cfg gameMaster agents rest
      else [])"

text \<open>A turn in which the first invocation generates a text and emits it.\<close>

definition good_turn :: "turn_env \<Rightarrow> bool" where
  "good_turn t =
     (client_present t \<and> sends t 0 = Emitted \<and>
      (case responses t 0 of None \<Rightarrow> False | Some r \<Rightarrow> r \<noteq> []))"

section \<open>Resilient channel\<close>

text \<open>
  Modelled from the spec: \<open>types/ws.ts\<close> is not among the sources. The message types are
  the six the spec lists; their wire names are lower-case, as the literal
  \<open>agent_message\<close> in \<open>isAffectedByPvP\<close> is.
\<close>

datatype WsMessageTypes =
  HEARTBEAT | SUBSCRIBE_ROOM | AGENT_MESSAGE | GM_MESSAGE | OBSERVATION | SYSTEM_NOTIFICATION

fun wire_name :: "WsMessageTypes \<Rightarrow> string" where
  "wire_name HEARTBEAT = ''heartbeat''"
| "wire_name SUBSCRIBE_ROOM = ''subscribe_room''"
| "wire_name AGENT_MESSAGE = ''agent_message''"
| "wire_name GM_MESSAGE = ''gm_message''"
| "wire_name OBSERVATION = ''observation''"
| "wire_name SYSTEM_NOTIFICATION = ''system_notification''"

definition has_type :: "inbound \<Rightarrow> WsMessageTypes \<Rightarrow> bool" where
  "has_type m t = (messageType m = Some (JStr (wire_name t)))"

text \<open>An outbound envelope, as the object handed to the transport.\<close>

record envelope =
  env_messageType :: WsMessageTypes
  env_content :: json
  env_signature :: "signature option"
  env_sender :: "string option"
  env_timestamp :: "int option"

datatype readyState = CONNECTING | OPEN | CLOSING | CLOSED

text \<open>The two \<open>onClose\<close> handlers that \<open>AgentClient\<close> installs.\<close>

datatype onClose_handler = LogDisconnect | ReconnectAfter5s

record WebSocketConfig =
  cfg_endpoint :: string
  cfg_roomId :: int
  auth_walletAddress :: string
  auth_agentId :: int
  auth_timestamp :: "int option"
  auth_signature :: "signature option"
  onClose :: onClose_handler

text \<open>
  The channel object. \<open>ws\<close> is the ready state of the current socket (\<open>None\<close> when
  there is none), \<open>reconnectTimer\<close> the delay of the pending reconnect timer.
\<close>

record SharedWebSocket =
  ws_config :: WebSocketConfig
  ws :: "readyState option"
  heartbeatInterval :: bool
  reconnectAttempts :: nat
  isActive :: bool
  lastHeartbeatResponse :: int
  reconnectTimer :: "nat option"
  reconnectAttempt :: nat

definition HEARTBEAT_TIMEOUT :: int where
  "HEARTBEAT_TIMEOUT = 30000"

definition MAX_RECONNECT_DELAY :: nat where
  "MAX_RECONNECT_DELAY = 30000"

text \<open>What a handler of the channel does to the outside.\<close>

datatype ws_effect =
    Write envelope
  | SetTimeout nat
  | CallOnClose
  | CallOnMessage inbound

definition SharedWebSocket_new :: "int \<Rightarrow> WebSocketConfig \<Rightarrow> SharedWebSocket" where
  "SharedWebSocket_new now cfg =
     \<lparr>ws_config = cfg, ws = None, heartbeatInterval = False, reconnectAttempts = 0,
      isActive = True, lastHeartbeatResponse = now, reconnectTimer = None,
      reconnectAttempt = 0\<rparr>"

text \<open>
  \<open>connect\<close> drops the current socket with its listeners, cancels a pending reconnect
  and creates a socket; \<open>socket_created\<close> is false when the constructor of the socket
  throws.
\<close>

definition connect :: "bool \<Rightarrow> SharedWebSocket \<Rightarrow> SharedWebSocket" where
  "connect socket_created s =
     s\<lparr>ws := (if socket_created then Some CONNECTING else None), reconnectTimer := None\<rparr>"

definition subscribeToRoom :: "int \<Rightarrow> SharedWebSocket \<Rightarrow> ws_effect list" where
  "subscribeToRoom now s =
     (if ws s = None then []
      else if ws s = Some OPEN then
        [Write \<lparr>env_messageType = SUBSCRIBE_ROOM,
                env_content = sortObjectKeys
                  (JObj [(''roomId'', JNum (cfg_roomId (ws_config s))), (''timestamp'', JNum now)]),
                env_signature = None, env_sender = None, env_timestamp = None\<rparr>]
      else [])"

text \<open>The handler of the socket's \<open>open\<close> event.\<close>

definition on_open :: "int \<Rightarrow> SharedWebSocket \<Rightarrow> SharedWebSocket \<times> ws_effect list" where
  "on_open now s =
     (let s1 = s\<lparr>reconnectAttempt := 0\<rparr>;
          w = subscribeToRoom now s1
      in (s1\<lparr>heartbeatInterval := True, reconnectAttempts := 0\<rparr>, w))"

definition handleDisconnect :: "SharedWebSocket \<Rightarrow> SharedWebSocket \<times> ws_effect list" where
  "handleDisconnect s =
     (let s1 = s\<lparr>heartbeatInterval := False\<rparr>
      in if \<not> isActive s1 then (s1, [])
         else (let delay = min (1000 * 2 ^ reconnectAttempt s1) MAX_RECONNECT_DELAY
               in (s1\<lparr>reconnectTimer := Some delay\<rparr>, [SetTimeout delay, CallOnClose])))"

text \<open>The callback of the reconnect timer.\<close>

definition reconnect_callback :: "bool \<Rightarrow> SharedWebSocket \<Rightarrow> SharedWebSocket" where
  "reconnect_callback socket_created s =
     connect socket_created (s\<lparr>reconnectAttempt := reconnectAttempt s + 1\<rparr>)"

text \<open>The callback of the heartbeat interval.\<close>

definition heartbeat_callback :: "int \<Rightarrow> SharedWebSocket \<Rightarrow> SharedWebSocket \<times> ws_effect list" where
  "heartbeat_callback now s =
     (if ws s \<noteq> Some OPEN then (s, [])
      else if now - lastHeartbeatResponse s > HEARTBEAT_TIMEOUT then (s\<lparr>ws := Some CLOSING\<rparr>, [])
      else (s, [Write \<lparr>env_messageType = HEARTBEAT, env_content = JObj [],
                       env_signature = None, env_sender = None, env_timestamp = None\<rparr>]))"

text \<open>\<open>handleMessage\<close> on a frame; \<open>None\<close> is a frame that does not parse.\<close>

definition handleMessage ::
  "int \<Rightarrow> SharedWebSocket \<Rightarrow> inbound option \<Rightarrow> SharedWebSocket \<times> ws_effect list" where
  "handleMessage now s parsed =
     (case parsed of
        None \<Rightarrow> (s, [])
      | Some m \<Rightarrow>
          if has_type m HEARTBEAT then (s\<lparr>lastHeartbeatResponse := now\<rparr>, [])
          else (s, [CallOnMessage m]))"

definition close_socket :: "readyState option \<Rightarrow> readyState option" where
  "close_socket r = (case r of None \<Rightarrow> None | Some CLOSED \<Rightarrow> Some CLOSED | Some _ \<Rightarrow> Some CLOSING)"

definition ws_close :: "SharedWebSocket \<Rightarrow> SharedWebSocket" where
  "ws_close s = s\<lparr>isActive := False, heartbeatInterval := False, ws := close_socket (ws s)\<rparr>"

definition ws_send :: "SharedWebSocket \<Rightarrow> envelope \<Rightarrow> envelope list" where
  "ws_send s message =
     (if ws s = Some OPEN then [message\<lparr>env_content := sortObjectKeys (env_content message)\<rparr>]
      else [])"

definition isConnected :: "SharedWebSocket \<Rightarrow> bool" where
  "isConnected s = (ws s = Some OPEN)"

text \<open>
  What can happen to a channel between two calls of its owner: events of the current
  socket (they reach the channel only while the socket has its listeners) and timers.
\<close>

datatype ws_event =
    SocketOpen int
  | SocketClose
  | SocketMessage int "inbound option"
  | ConnectTimeout
  | ReconnectTimerFires bool
  | HeartbeatTick int

fun ws_step :: "SharedWebSocket \<Rightarrow> ws_event \<Rightarrow> SharedWebSocket \<times> ws_effect list" where
  "ws_step s (SocketOpen now) =
     (if ws s = Some CONNECTING then on_open now (s\<lparr>ws := Some OPEN\<rparr>) else (s, []))"
| "ws_step s SocketClose =
     (if ws s = None \<or> ws s = Some CLOSED then (s, [])
      else handleDisconnect (s\<lparr>ws := Some CLOSED\<rparr>))"
| "ws_step s (SocketMessage now parsed) =
     (if ws s = Some OPEN then handleMessage now s parsed else (s, []))"
| "ws_step s ConnectTimeout =
     (if ws s = Some CONNECTING then (s\<lparr>ws := Some CLOSING\<rparr>, []) else (s, []))"
| "ws_step s (ReconnectTimerFires socket_created) =
     (case reconnectTimer s of
        None \<Rightarrow> (s, [])
      | Some d \<Rightarrow> (reconnect_callback socket_created s, []))"
| "ws_step s (HeartbeatTick now) =
     (if heartbeatInterval s then heartbeat_callback now s else (s, []))"

fun ws_run :: "SharedWebSocket \<Rightarrow> ws_event list \<Rightarrow> SharedWebSocket \<times> ws_effect list" where
  "ws_run s [] = (s, [])"
| "ws_run s (e # es) =
     (let r = ws_step s e; r' = ws_run (fst r) es in (fst r', snd r @ snd r'))"

text \<open>The delays of the reconnect timers set during a run, in order.\<close>

fun scheduled_delays :: "ws_effect list \<Rightarrow> nat list" where
  "scheduled_delays [] = []"
| "scheduled_delays (SetTimeout d # es) = d # scheduled_delays es"
| "scheduled_delays (_ # es) = scheduled_delays es"

text \<open>A failed reconnect attempt: the timer fires, a socket is created and it closes.\<close>

definition failed_attempts :: "nat \<Rightarrow> ws_event list" where
  "failed_attempts n = concat (replicate n [ReconnectTimerFires True, SocketClose])"

section \<open>Participant client\<close>

record MessageHistoryEntry =
  entry_timestamp :: int
  entry_agentId :: "json option"
  entry_text :: "json option"
  agentName :: string
  role :: string

text \<open>
  The state of an \<open>AgentClient\<close>. \<open>integration_processedMessageIds\<close> is the set
  \<open>processedMessageIds\<close> of the \<open>PVPVAIIntegration\<close> the client holds. The last
  four fields are not fields of the class: they count the pending reconnect timers set
  by the \<open>onClose\<close> handler and record, in order, the frames the client's channel wrote
  to its socket, the envelopes passed to \<open>axios.post\<close>, and the messages handed to the
  content generator.
\<close>

record AgentClient =
  walletAddress :: string
  wallet_privateKey :: string
  wallet_address :: string
  agentNumericId :: int
  roomId :: "int option"
  roundId :: "int option"
  endpoint :: string
  wsClient :: SharedWebSocket
  client_isActive :: bool
  activePvPEffects :: "(string \<times> effect) list"
  messageContext :: "MessageHistoryEntry list"
  processedMessages :: "string set"
  integration_processedMessageIds :: "string set"
  pending_reconnects :: nat
  written :: "envelope list"
  posted :: "envelope list"
  handed_to_generator :: "string list"

text \<open>A numeric field that a negation test treats as missing.\<close>

definition unset :: "int option \<Rightarrow> bool" where
  "unset x = (x = None \<or> x = Some 0)"

definition to_lower :: "string \<Rightarrow> string" where
  "to_lower s = map lower_char s"

text \<open>
  The constructor: \<open>env_key\<close> is the private key found in the environment and
  \<open>derived_address\<close> the address the wallet derives from it.
\<close>

definition AgentClient_new ::
  "int \<Rightarrow> string \<Rightarrow> string \<Rightarrow> int \<Rightarrow> string option \<Rightarrow> string \<Rightarrow> js_error + AgentClient" where
  "AgentClient_new now endpoint' walletAddress' agentNumericId' env_key derived_address =
     (case env_key of
        None \<Rightarrow> Inl (Thrown ''Error'' (''Private key not found for agent '' @ string_of_int agentNumericId') None)
      | Some privateKey \<Rightarrow>
          if privateKey = [] then
            Inl (Thrown ''Error'' (''Private key not found for agent '' @ string_of_int agentNumericId') None)
          else if \<not> valid_privateKey privateKey then
            Inl (Thrown ''Error'' ''invalid private key'' None)
          else if to_lower derived_address \<noteq> to_lower walletAddress' then
            Inl (Thrown ''Error'' (''Private key mismatch for agent '' @ string_of_int agentNumericId') None)
          else Inr
            \<lparr>walletAddress = walletAddress', wallet_privateKey = privateKey,
             wallet_address = derived_address, agentNumericId = agentNumericId',
             roomId = None, roundId = None, endpoint = endpoint',
             wsClient = SharedWebSocket_new now
               \<lparr>cfg_endpoint = endpoint', cfg_roomId = 0, auth_walletAddress = walletAddress',
                auth_agentId = agentNumericId', auth_timestamp = None, auth_signature = None,
                onClose = LogDisconnect\<rparr>,
             client_isActive = True, activePvPEffects = [], messageContext = [],
             processedMessages = {}, integration_processedMessageIds = {},
             pending_reconnects = 0, written = [], posted = [],
             handed_to_generator = []\<rparr>)"

text \<open>The answer of the round-resolution endpoint.\<close>

record RoundResponse =
  success :: bool
  data_id :: "int option"
  response_error :: "string option"

definition getActiveRound :: "js_error + RoundResponse \<Rightarrow> js_error + int" where
  "getActiveRound response =
     (case response of
        Inl e \<Rightarrow> Inl e
      | Inr r \<Rightarrow>
          if \<not> success r then
            Inl (Thrown ''Error''
                  (case response_error r of
                     None \<Rightarrow> ''Failed to get active round''
                   | Some m \<Rightarrow> if m = [] then ''Failed to get active round'' else m) None)
          else (case data_id r of
                  None \<Rightarrow> Inl (Thrown ''Error'' ''Invalid round data received: missing round ID'' None)
                | Some n \<Rightarrow>
                    if n = 0 then Inl (Thrown ''Error'' ''Invalid round data received: missing round ID'' None)
                    else Inr n))"

text \<open>
  \<open>setRoomAndRound\<close>, up to the point where it waits for the connection: the events of
  the new socket are separate steps. The channel it replaces is closed first.
\<close>

definition setRoomAndRound ::
  "int \<Rightarrow> js_error + RoundResponse \<Rightarrow> bool \<Rightarrow> AgentClient \<Rightarrow> int \<Rightarrow> AgentClient \<times> (js_error + unit)" where
  "setRoomAndRound now response socket_created s roomId' =
     (let s1 = s\<lparr>roomId := Some roomId'\<rparr>
      in case getActiveRound response of
           Inl e \<Rightarrow> (s1, Inl e)
         | Inr activeRound \<Rightarrow>
             if activeRound = 0 then (s1, Inl (Thrown ''Error'' ''No active round found'' None))
             else
               (let s2 = s1\<lparr>roundId := Some activeRound\<rparr>;
                    authContent = createMessageContent_auth now (wallet_address s2) (agentNumericId s2) roomId'
                in case snd (signMessage now authContent (wallet_privateKey s2)) of
                     Inl e \<Rightarrow> (s2, Inl e)
                   | Inr signature \<Rightarrow>
                       (let wsConfig =
                              \<lparr>cfg_endpoint = endpoint s2, cfg_roomId = roomId',
                               auth_walletAddress = wallet_address s2, auth_agentId = agentNumericId s2,
                               auth_timestamp = Some now, auth_signature = Some signature,
                               onClose = ReconnectAfter5s\<rparr>
                        in (s2\<lparr>wsClient := connect socket_created (SharedWebSocket_new now wsConfig)\<rparr>,
                            Inr ()))))"

text \<open>How one \<open>axios.post\<close> ends: with a response of some status, or by throwing.\<close>

datatype post_result = Status int | PostThrew js_error

text \<open>
  The retry loop of \<open>sendAIMessage\<close> on the results of its successive posts. It leaves
  only by a response of status 200 or by the third throw; a response of another status
  posts the envelope again without counting. The first component is \<open>None\<close> when the
  given results end before the loop does; the second lists the envelopes posted.
\<close>

fun post_loop ::
  "envelope \<Rightarrow> post_result list \<Rightarrow> nat \<Rightarrow> (js_error + unit) option \<times> envelope list" where
  "post_loop message [] retries = (if retries < 3 then None else Some (Inr ()), [])"
| "post_loop message (r # rs) retries =
     (if retries < 3 then
        (case r of
           Status n \<Rightarrow>
             if n = 200 then (Some (Inr ()), [message])
             else (let l = post_loop message rs retries in (fst l, message # snd l))
         | PostThrew e \<Rightarrow>
             if Suc retries = 3 then (Some (Inl e), [message])
             else (let l = post_loop message rs (Suc retries) in (fst l, message # snd l)))
      else (Some (Inr ()), []))"

text \<open>
  What a handler of the client is given from outside: the clock, the content generator
  (\<open>None\<close> when it returns null or throws), the results of the posts, and whether the
  frame passes the schema of its type.
\<close>

record handler_env =
  clock :: int
  generateText :: "string \<Rightarrow> string option"
  post_results :: "post_result list"
  schema_ok :: bool

definition sendAIMessage ::
  "handler_env \<Rightarrow> AgentClient \<Rightarrow> string \<Rightarrow> AgentClient \<times> (js_error + unit) option" where
  "sendAIMessage env s txt =
     (if unset (roomId s) \<or> unset (roundId s) then
        (s, Some (Inl (Thrown ''Error'' ''Agent not initialized with room and round IDs'' None)))
      else
        (let timestamp = clock env;
             signed = signMessage (clock env)
                        (createMessageContent_agent (clock env) (the (roomId s)) (the (roundId s))
                           (agentNumericId s) txt)
                        (wallet_privateKey s)
         in case snd signed of
              Inl e \<Rightarrow> (s, Some (Inl e))
            | Inr signature \<Rightarrow>
                (let message =
                       \<lparr>env_messageType = AGENT_MESSAGE, env_content = JObj (fst signed),
                        env_signature = Some signature, env_sender = Some (walletAddress s),
                        env_timestamp = Some timestamp\<rparr>;
                     l = post_loop message (post_results env) 0
                 in (s\<lparr>posted := posted s @ snd l\<rparr>, fst l))))"

text \<open>The id under which \<open>PVPVAIIntegration.processMessage\<close> files a message.\<close>

definition generation_id :: "int \<Rightarrow> json option \<Rightarrow> string" where
  "generation_id now message = string_of_int now @ ''-'' @ js_String message"

text \<open>
  \<open>PVPVAIIntegration.processMessage\<close>: null for a falsy message and for a message whose
  id, made of the clock value and the message, is in \<open>processedMessageIds\<close>; the
  generator is called otherwise, and the id is recorded when it returns a non-empty
  text. The wait for the rate limit only suspends; an error of the generator is caught
  and gives null.
\<close>

definition integration_processMessage ::
  "handler_env \<Rightarrow> AgentClient \<Rightarrow> json option \<Rightarrow> AgentClient \<times> string option" where
  "integration_processMessage env s message =
     (if \<not> truthy message then (s, None)
      else if generation_id (clock env) message \<in> integration_processedMessageIds s
        then (s, None)
      else
        (let s1 = s\<lparr>handed_to_generator := handed_to_generator s @ [js_String message]\<rparr>
         in case generateText env (js_String message) of
              None \<Rightarrow> (s1, None)
            | Some response \<Rightarrow>
                if response \<noteq> [] then
                  (s1\<lparr>integration_processedMessageIds :=
                        insert (generation_id (clock env) message)
                          (integration_processedMessageIds s1)\<rparr>,
                   Some response)
                else (s1, Some response)))"

text \<open>Generate a reply to a message and send it when it is not empty.\<close>

definition reply_to :: "handler_env \<Rightarrow> AgentClient \<Rightarrow> json option \<Rightarrow> AgentClient" where
  "reply_to env s message =
     (let g = integration_processMessage env s message
      in case snd g of
           None \<Rightarrow> fst g
         | Some response \<Rightarrow> if response \<noteq> [] then fst (sendAIMessage env (fst g) response) else fst g)"

definition messageId :: "inbound \<Rightarrow> string" where
  "messageId m =
     js_String (prop_opt (content m) ''timestamp'') @ ''-'' @ js_String (prop_opt (content m) ''agentId'')"

text \<open>\<open>handleAgentMessage\<close>; whatever it throws is caught and logged.\<close>

definition handleAgentMessage :: "handler_env \<Rightarrow> AgentClient \<Rightarrow> inbound \<Rightarrow> AgentClient" where
  "handleAgentMessage env s m =
     (if messageId m \<in> processedMessages s then s
      else
        (let s1 = s\<lparr>processedMessages := insert (messageId m) (processedMessages s)\<rparr>
         in if prop_opt (content m) ''agentId'' \<noteq> Some (JNum (agentNumericId s1))
            then reply_to env s1 (prop_opt (content m) ''text'')
            else s1))"

definition handleObservation :: "handler_env \<Rightarrow> AgentClient \<Rightarrow> inbound \<Rightarrow> AgentClient" where
  "handleObservation env s m =
     (if \<not> schema_ok env then s
      else if prop_opt (content m) ''roundId'' = map_option JNum (roundId s)
        then reply_to env s
               (Some (JStr (''Observed: '' @
                  (case prop_opt (content m) ''data'' of
                     None \<Rightarrow> ''undefined''
                   | Some d \<Rightarrow> JSON_stringify d))))
      else s)"

text \<open>
  \<open>handleWebSocketMessage\<close> on a frame (\<open>None\<close> when it does not parse). Every error is
  caught and logged, so the handler only changes the state.
\<close>

definition handleWebSocketMessage ::
  "handler_env \<Rightarrow> AgentClient \<Rightarrow> inbound option \<Rightarrow> AgentClient" where
  "handleWebSocketMessage env s parsed =
     (case parsed of
        None \<Rightarrow> s
      | Some m \<Rightarrow>
          if has_type m HEARTBEAT then
            (let signed = signMessage (clock env) (createMessageContent_heartbeat (clock env))
                            (wallet_privateKey s)
             in case snd signed of
                  Inl e \<Rightarrow> s
                | Inr signature \<Rightarrow>
                    s\<lparr>written := written s @
                        ws_send (wsClient s)
                          \<lparr>env_messageType = HEARTBEAT, env_content = JObj (fst signed),
                           env_signature = Some signature, env_sender = Some (walletAddress s),
                           env_timestamp = Some (clock env)\<rparr>\<rparr>)
          else if has_type m GM_MESSAGE then
            (case prop_strict (content m) ''message'' of
               Inl e \<Rightarrow> s
             | Inr message \<Rightarrow> reply_to env s message)
          else if has_type m AGENT_MESSAGE then handleAgentMessage env s m
          else if has_type m OBSERVATION then handleObservation env s m
          else s)"



text \<open>The client's \<open>stop\<close>.\<close>

definition stop :: "AgentClient \<Rightarrow> AgentClient" where
  "stop s = s\<lparr>client_isActive := False, wsClient := ws_close (wsClient s)\<rparr>"

text \<open>
  The client reacting to what a handler of its channel did: a written frame is recorded,
  \<open>onClose\<close> sets the five-second reconnect timer when the handler installed by
  \<open>setRoomAndRound\<close> is in place and the client is active, and an inbound frame goes
  to \<open>handleWebSocketMessage\<close>.
\<close>

fun react :: "handler_env \<Rightarrow> AgentClient \<Rightarrow> ws_effect \<Rightarrow> AgentClient" where
  "react env s (Write e) = s\<lparr>written := written s @ [e]\<rparr>"
| "react env s (SetTimeout d) = s"
| "react env s CallOnClose =
     (if onClose (ws_config (wsClient s)) = ReconnectAfter5s \<and> client_isActive s
      then s\<lparr>pending_reconnects := Suc (pending_reconnects s)\<rparr> else s)"
| "react env s (CallOnMessage m) = handleWebSocketMessage env s (Some m)"

text \<open>
  What can happen to a client: calls of its methods, events of its channel, timers
  (the five-second reconnect of \<open>onClose\<close>, the removal of a generation id after five
  minutes), and a call of \<open>processMessage\<close> of its integration from outside.
\<close>

datatype client_event =
    SetRoomAndRound int "js_error + RoundResponse" bool int
  | SendAIMessage handler_env string
  | Deliver handler_env "inbound option"
  | Channel handler_env ws_event
  | ReconnectAfter5sFires bool
  | ProcessMessage handler_env "json option"
  | ForgetGenerationId string
  | Stop

fun client_step :: "AgentClient \<Rightarrow> client_event \<Rightarrow> AgentClient" where
  "client_step s (SetRoomAndRound now response socket_created roomId') =
     fst (setRoomAndRound now response socket_created s roomId')"
| "client_step s (SendAIMessage env txt) = fst (sendAIMessage env s txt)"
| "client_step s (Deliver env parsed) = handleWebSocketMessage env s parsed"
| "client_step s (Channel env ev) =
     (let r = ws_step (wsClient s) ev
      in foldl (react env) (s\<lparr>wsClient := fst r\<rparr>) (snd r))"
| "client_step s (ReconnectAfter5sFires socket_created) =
     (if pending_reconnects s = 0 then s
      else s\<lparr>pending_reconnects := pending_reconnects s - 1,
             wsClient := connect socket_created (wsClient s)\<rparr>)"
| "client_step s (ProcessMessage env message) = fst (integration_processMessage env s message)"
| "client_step s (ForgetGenerationId i) =
     s\<lparr>integration_processedMessageIds := integration_processedMessageIds s - {i}\<rparr>"
| "client_step s Stop = stop s"

text \<open>
  The delays of the reconnect timers that the client's channel sets during a run of
  events, in order.
\<close>

fun client_delays :: "AgentClient \<Rightarrow> client_event list \<Rightarrow> nat list" where
  "client_delays s [] = []"
| "client_delays s (Channel env ev # es) =
     scheduled_delays (snd (ws_step (wsClient s) ev))
       @ client_delays (client_step s (Channel env ev)) es"
| "client_delays s (e # es) = client_delays (client_step s e) es"

text \<open>The states a client can be in: a constructed client after any events.\<close>

inductive reachable :: "AgentClient \<Rightarrow> bool" where
  constructed:
    "AgentClient_new now e w a k d = Inr s \<Longrightarrow> reachable s"
| step: "reachable s \<Longrightarrow> reachable (client_step s ev)"

section \<open>A client for the examples\<close>

text \<open>
  A client constructed for agent 50 with the private key 1 and the address derived from
  it, and the same client after \<open>setRoomAndRound 290\<close> resolved round 578.
\<close>

definition example_key :: string where
  "example_key = ''0x0000000000000000000000000000000000000000000000000000000000000001''"

definition constructed_client :: AgentClient where
  "constructed_client =
     \<lparr>walletAddress = ''0x7E5F4552091A69125d5DfCb7b8C2659029395Bdf'',
      wallet_privateKey = example_key,
      wallet_address = ''0x7E5F4552091A69125d5DfCb7b8C2659029395Bdf'',
      agentNumericId = 50, roomId = None, roundId = None,
      endpoint = ''http://localhost:3000'',
      wsClient = SharedWebSocket_new 0
        \<lparr>cfg_endpoint = ''http://localhost:3000'', cfg_roomId = 0,
         auth_walletAddress = ''0x7E5F4552091A69125d5DfCb7b8C2659029395Bdf'',
         auth_agentId = 50, auth_timestamp = None, auth_signature = None,
         onClose = LogDisconnect\<rparr>,
      client_isActive = True, activePvPEffects = [], messageContext = [],
      processedMessages = {}, integration_processedMessageIds = {},
      pending_reconnects = 0, written = [], posted = [],
      handed_to_generator = []\<rparr>"

definition joined_client :: AgentClient where
  "joined_client =
     client_step constructed_client
       (SetRoomAndRound 1000
          (Inr \<lparr>success = True, data_id = Some 578, response_error = None\<rparr>) True 290)"

text \<open>An environment in which the generator answers and the first post succeeds.\<close>

definition answering :: handler_env where
  "answering =
     \<lparr>clock = 2000, generateText = (\<lambda>prompt. Some ''I disagree''),
      post_results = [Status 200], schema_ok = True\<rparr>"

text \<open>An environment in which the generator returns nothing.\<close>

definition silent :: handler_env where
  "silent =
     \<lparr>clock = 2000, generateText = (\<lambda>prompt. None), post_results = [Status 200],
      schema_ok = True\<rparr>"

text \<open>An agent message with the given timestamp, sender and text.\<close>

definition agent_message :: "int \<Rightarrow> int \<Rightarrow> string \<Rightarrow> inbound" where
  "agent_message ts sender txt =
     \<lparr>messageType = Some (JStr (wire_name AGENT_MESSAGE)),
      content = Some (JObj [(''timestamp'', JNum ts), (''roomId'', JNum 290),
                            (''roundId'', JNum 578), (''agentId'', JNum sender),
                            (''text'', JStr txt)])\<rparr>"

text \<open>
  Rounds for the examples: one in which every turn generates a text and emits it, one in
  which the Moderator's call generates nothing, and one in which the send of the first
  Debater throws.
\<close>

definition emitting_turn :: turn_env where
  "emitting_turn =
     \<lparr>client_present = True, responses = (\<lambda>i. Some ''reply''), sends = (\<lambda>i. Emitted)\<rparr>"

definition smooth_round :: round_env where
  "smooth_round =
     \<lparr>gm_turn = emitting_turn, agent_turn = (\<lambda>j. emitting_turn), running = (\<lambda>j. True)\<rparr>"

definition quiet_moderator_round :: round_env where
  "quiet_moderator_round =
     \<lparr>gm_turn = emitting_turn\<lparr>sends := (\<lambda>i. Suppressed)\<rparr>,
      agent_turn = (\<lambda>j. emitting_turn), running = (\<lambda>j. True)\<rparr>"

definition failing_debater_round :: round_env where
  "failing_debater_round =
     \<lparr>gm_turn = emitting_turn,
      agent_turn = (\<lambda>j. if j = 0
                         then emitting_turn\<lparr>sends := (\<lambda>i. SendThrew (Thrown ''Error'' ''Network Error'' None))\<rparr>
                         else emitting_turn),
      running = (\<lambda>j. True)\<rparr>"

section \<open>Proof set-up\<close>

text \<open>
  The recursive equations below are unconditional; they are unfolded by hand, or by the
  code simplifier on concrete inputs.
\<close>

declare string_of_nat.simps [simp del]
declare retry_loop.simps [simp del]
declare agent_turns.simps [simp del]

section \<open>The bounded message context\<close>

lemma updateMessageContext_drop:
  "length c \<le> MAX_CONTEXT_SIZE \<Longrightarrow>
   updateMessageContext c e = drop (Suc (length c) - MAX_CONTEXT_SIZE) (c @ [e])"
  by (cases c) (auto simp: updateMessageContext_def MAX_CONTEXT_SIZE_def drop_Cons')

lemma drop_step:
  fixes xs :: "'a list" and N :: nat
  shows "drop (Suc (length (drop (length xs - N) xs)) - N) (drop (length xs - N) xs @ [e])
         = drop (Suc (length xs) - N) (xs @ [e])"
proof (cases "length xs < N")
  case True
  then show ?thesis by simp
next
  case False
  then have "Suc (length xs) - N = Suc (length xs - N)" by simp
  moreover from False have "Suc (length (drop (length xs - N) xs)) - N = Suc 0" by simp
  ultimately show ?thesis by (simp add: drop_Suc tl_drop tl_append split: list.splits)
qed

lemma foldl_updateMessageContext:
  "length c \<le> MAX_CONTEXT_SIZE \<Longrightarrow>
   foldl updateMessageContext c es = drop (length (c @ es) - MAX_CONTEXT_SIZE) (c @ es)"
proof (induction es rule: rev_induct)
  case Nil
  then show ?case by simp
next
  case (snoc e es)
  let ?k = "length (c @ es) - MAX_CONTEXT_SIZE"
  have len: "length (drop ?k (c @ es)) \<le> MAX_CONTEXT_SIZE" by simp
  have "foldl updateMessageContext c (es @ [e]) = updateMessageContext (drop ?k (c @ es)) e"
    using snoc by simp
  also have "\<dots> = drop (Suc (length (drop ?k (c @ es))) - MAX_CONTEXT_SIZE) (drop ?k (c @ es) @ [e])"
    by (rule updateMessageContext_drop [OF len])
  also have "\<dots> = drop (Suc (length (c @ es)) - MAX_CONTEXT_SIZE) ((c @ es) @ [e])"
    by (rule drop_step)
  finally show ?case by simp
qed

text \<open>
  C4. From a context of at most eight entries, pushing entries one after the other leaves
  the last eight of the whole history, in their order: the oldest entries are evicted
  first. Pushing nine entries leaves exactly eight, namely the nine pushed without the
  first of them, and the size never exceeds eight.
\<close>

theorem context_bounded_fifo:
  assumes "length ctx \<le> MAX_CONTEXT_SIZE"
  shows "foldl updateMessageContext ctx es
           = drop (length (ctx @ es) - MAX_CONTEXT_SIZE) (ctx @ es)
       \<and> length (foldl updateMessageContext ctx es) \<le> MAX_CONTEXT_SIZE
       \<and> (length es = MAX_CONTEXT_SIZE + 1 \<longrightarrow>
            length (foldl updateMessageContext ctx es) = MAX_CONTEXT_SIZE
            \<and> foldl updateMessageContext ctx es = tl es)"
proof -
  have eq: "foldl updateMessageContext ctx es
              = drop (length (ctx @ es) - MAX_CONTEXT_SIZE) (ctx @ es)"
    using assms by (rule foldl_updateMessageContext)
  have "foldl updateMessageContext ctx es = tl es" if "length es = MAX_CONTEXT_SIZE + 1"
  proof -
    from that have "length (ctx @ es) - MAX_CONTEXT_SIZE = length ctx + 1" by simp
    with eq that show ?thesis by (simp add: drop_Suc)
  qed
  with eq show ?thesis by auto
qed

theorem context_bounded_fifo_witness:
  "length [0::nat, 1, 2, 3, 4, 5, 6, 7] \<le> MAX_CONTEXT_SIZE
   \<and> foldl updateMessageContext [0::nat, 1, 2, 3, 4, 5, 6, 7] [10, 11, 12, 13, 14, 15, 16, 17, 18]
       = [11, 12, 13, 14, 15, 16, 17, 18]"
proof -
  have h: "length [0::nat, 1, 2, 3, 4, 5, 6, 7] \<le> MAX_CONTEXT_SIZE"
    by (simp add: MAX_CONTEXT_SIZE_def)
  from context_bounded_fifo [OF h, of "[10, 11, 12, 13, 14, 15, 16, 17, 18]"] h
  show ?thesis by (simp add: MAX_CONTEXT_SIZE_def)
qed

section \<open>Canonical serialization and signing\<close>

lemma sort_key_fst_unique:
  assumes "distinct (map fst A)" "distinct (map fst B)" "set A = set B"
  shows "sort_key fst A = sort_key fst B"
proof (rule sort_key_inj_key_eq)
  from assms have "distinct A" "distinct B" by (auto simp: distinct_map)
  with assms(3) show "mset A = mset (sort_key fst B)"
    by (simp add: set_eq_iff_mset_eq_distinct)
  from assms(1) show "inj_on fst (set A)" by (simp add: distinct_map)
  show "sorted (map fst (sort_key fst B))" by simp
qed

lemma reordered_sortObjectKeys:
  "reordered p q \<Longrightarrow> sortObjectKeys p = sortObjectKeys q"
proof (induction rule: reordered.induct)
  case (same v)
  show ?case by simp
next
  case (arr xs ys)
  then have "map sortObjectKeys xs = map sortObjectKeys ys"
    by (induction rule: list_all2_induct) auto
  then show ?case by simp
next
  case (obj xs ys)
  let ?f = "\<lambda>kv. (fst kv, sortObjectKeys (snd kv))"
  have fst: "map fst (map ?f zs) = map fst zs" for zs :: "(string \<times> json) list"
    by (simp add: comp_def)
  have sub1: "set (map ?f xs) \<subseteq> set (map ?f ys)"
  proof
    fix e assume "e \<in> set (map ?f xs)"
    then obtain k v where kv: "(k, v) \<in> set xs" and e: "e = (k, sortObjectKeys v)" by auto
    from kv have "k \<in> set (map fst xs)" by force
    with obj(3) have "k \<in> set (map fst ys)" by simp
    then obtain w where kw: "(k, w) \<in> set ys" by auto
    with kv obj.IH have "sortObjectKeys v = sortObjectKeys w" by blast
    with kw e show "e \<in> set (map ?f ys)" by force
  qed
  have sub2: "set (map ?f ys) \<subseteq> set (map ?f xs)"
  proof
    fix e assume "e \<in> set (map ?f ys)"
    then obtain k w where kw: "(k, w) \<in> set ys" and e: "e = (k, sortObjectKeys w)" by auto
    from kw have "k \<in> set (map fst ys)" by force
    with obj(3) have "k \<in> set (map fst xs)" by simp
    then obtain v where kv: "(k, v) \<in> set xs" by auto
    with kw obj.IH have "sortObjectKeys v = sortObjectKeys w" by blast
    with kv e show "e \<in> set (map ?f xs)" by force
  qed
  have "sort_key fst (map ?f xs) = sort_key fst (map ?f ys)"
  proof (rule sort_key_fst_unique)
    show "distinct (map fst (map ?f xs))" using obj(1) by (simp only: fst)
    show "distinct (map fst (map ?f ys))" using obj(2) by (simp only: fst)
    show "set (map ?f xs) = set (map ?f ys)" using sub1 sub2 by (rule equalityI)
  qed
  then show ?case by simp
qed

inductive_cases reordered_objE: "reordered (JObj xs) q"

lemma reordered_truthy: "reordered v w \<Longrightarrow> truthy (Some v) = truthy (Some w)"
  by (induction rule: reordered.induct) auto

lemma set_update_distinct:
  "distinct (map fst al) \<Longrightarrow>
   set (AList.update k v al) = insert (k, v) {e \<in> set al. fst e \<noteq> k}"
  by (induction al) (auto simp: rev_image_eqI)

lemma reordered_lookup:
  assumes "distinct (map fst xs)" "distinct (map fst ys)"
    "set (map fst xs) = set (map fst ys)"
    "\<And>k v w. (k, v) \<in> set xs \<Longrightarrow> (k, w) \<in> set ys \<Longrightarrow> reordered v w"
  shows "truthy (map_of xs k) = truthy (map_of ys k)"
proof (cases "map_of xs k")
  case None
  then have "k \<notin> set (map fst xs)" by (simp add: map_of_eq_None_iff)
  with assms(3) have "map_of ys k = None" by (simp add: map_of_eq_None_iff)
  with None show ?thesis by simp
next
  case (Some v)
  then have kv: "(k, v) \<in> set xs" by (rule map_of_SomeD)
  then have "k \<in> set (map fst xs)" by force
  with assms(3) have "k \<in> set (map fst ys)" by simp
  then obtain w where kw: "(k, w) \<in> set ys" by auto
  with assms(2) have "map_of ys k = Some w" by simp
  moreover from kv kw assms(4) have "reordered v w" by blast
  ultimately show ?thesis using Some by (simp add: reordered_truthy)
qed

lemma reordered_ensure_timestamp:
  assumes "reordered (JObj xs) (JObj ys)"
  shows "reordered (JObj (ensure_timestamp now xs)) (JObj (ensure_timestamp now ys))"
proof -
  from assms consider (eq) "xs = ys"
    | (perm) "distinct (map fst xs)" "distinct (map fst ys)"
        "set (map fst xs) = set (map fst ys)"
        "\<And>k v w. (k, v) \<in> set xs \<Longrightarrow> (k, w) \<in> set ys \<Longrightarrow> reordered v w"
    by (rule reordered_objE) auto
  then show ?thesis
  proof cases
  case eq
  then show ?thesis by (auto intro: reordered.same)
next
  case perm
  note h = perm
  have t: "truthy (map_of xs ''timestamp'') = truthy (map_of ys ''timestamp'')"
    by (rule reordered_lookup) (use h in auto)
  show ?thesis
  proof (cases "truthy (map_of xs ''timestamp'')")
    case True
    with t assms show ?thesis by (simp add: ensure_timestamp_def)
  next
    case False
    have "reordered (JObj (AList.update ''timestamp'' (JNum now) xs))
                    (JObj (AList.update ''timestamp'' (JNum now) ys))"
    proof (rule reordered.obj)
      show "distinct (map fst (AList.update ''timestamp'' (JNum now) xs))"
        using h(1) by (simp add: distinct_update)
      show "distinct (map fst (AList.update ''timestamp'' (JNum now) ys))"
        using h(2) by (simp add: distinct_update)
      show "set (map fst (AList.update ''timestamp'' (JNum now) xs)) =
            set (map fst (AList.update ''timestamp'' (JNum now) ys))"
        using h(3) by (simp add: update_keys del: set_map)
    next
      fix k v w
      assume "(k, v) \<in> set (AList.update ''timestamp'' (JNum now) xs)"
        and "(k, w) \<in> set (AList.update ''timestamp'' (JNum now) ys)"
      then have "(k = ''timestamp'' \<and> v = JNum now \<and> w = JNum now) \<or>
                 ((k, v) \<in> set xs \<and> (k, w) \<in> set ys)"
        using h(1,2) by (auto simp: set_update_distinct)
      then show "reordered v w" using h(4) by (auto intro: reordered.same)
    qed
    with False t show ?thesis by (simp add: ensure_timestamp_def)
  qed
qed
qed

lemma ensure_timestamp_truthy:
  "truthy (map_of c ''timestamp'') \<Longrightarrow> ensure_timestamp now c = c"
  by (simp add: ensure_timestamp_def)

lemma digit_char_inj:
  assumes "a < 10" "b < 10" "digit_char a = digit_char b"
  shows "a = b"
proof -
  have d: "distinct ''0123456789''" by simp
  have "''0123456789'' ! a = ''0123456789'' ! b"
    using assms by (simp add: digit_char_def)
  with d assms(1,2) show ?thesis by (simp add: nth_eq_iff_index_eq)
qed

lemma string_of_nat_nonempty: "string_of_nat n \<noteq> []"
  by (subst string_of_nat.simps) simp

lemma digit_char_digit: "digit_char d \<in> set ''0123456789''"
proof -
  have "d mod 10 < length ''0123456789''" by simp
  then have "''0123456789'' ! (d mod 10) \<in> set ''0123456789''" by (rule nth_mem)
  then show ?thesis by (simp only: digit_char_def)
qed

lemma string_of_nat_digits: "set (string_of_nat n) \<subseteq> set ''0123456789''"
proof (induction n rule: string_of_nat.induct)
  case (1 n)
  show ?case
  proof (cases "n < 10")
    case True
    have "string_of_nat n = [digit_char n]" using True by (subst string_of_nat.simps) simp
    then show ?thesis using digit_char_digit [of n] by simp
  next
    case False
    have "string_of_nat n = string_of_nat (n div 10) @ [digit_char (n mod 10)]"
      using False by (subst string_of_nat.simps) simp
    moreover have "set (string_of_nat (n div 10)) \<subseteq> set ''0123456789''"
      using 1 False by simp
    ultimately show ?thesis using digit_char_digit [of "n mod 10"] by simp
  qed
qed

lemma string_of_nat_inj: "string_of_nat m = string_of_nat n \<Longrightarrow> m = n"
proof (induction m arbitrary: n rule: string_of_nat.induct)
  case (1 m)
  show ?case
  proof (cases "m < 10")
    case True
    then have m: "string_of_nat m = [digit_char m]" by (subst string_of_nat.simps) simp
    show ?thesis
    proof (cases "n < 10")
      case nlt: True
      then have "string_of_nat n = [digit_char n]" by (subst string_of_nat.simps) simp
      with m "1.prems" have "digit_char m = digit_char n" by simp
      with True nlt show ?thesis by (rule digit_char_inj)
    next
      case False
      then have "string_of_nat n = string_of_nat (n div 10) @ [digit_char (n mod 10)]"
        by (subst string_of_nat.simps) simp
      with m "1.prems" have "string_of_nat (n div 10) = []" by simp
      then show ?thesis by (simp add: string_of_nat_nonempty)
    qed
  next
    case False
    then have m: "string_of_nat m = string_of_nat (m div 10) @ [digit_char (m mod 10)]"
      by (subst string_of_nat.simps) simp
    show ?thesis
    proof (cases "n < 10")
      case True
      then have "string_of_nat n = [digit_char n]" by (subst string_of_nat.simps) simp
      with m "1.prems" have "string_of_nat (m div 10) = []" by simp
      then show ?thesis by (simp add: string_of_nat_nonempty)
    next
      case nge: False
      then have "string_of_nat n = string_of_nat (n div 10) @ [digit_char (n mod 10)]"
        by (subst string_of_nat.simps) simp
      with m "1.prems" have e: "string_of_nat (m div 10) = string_of_nat (n div 10)"
        and d: "digit_char (m mod 10) = digit_char (n mod 10)" by simp_all
      from e have "m div 10 = n div 10" using "1.IH" False by simp
      moreover have "m mod 10 = n mod 10"
        by (rule digit_char_inj [OF _ _ d]) simp_all
      ultimately show ?thesis by (metis div_mult_mod_eq)
    qed
  qed
qed

lemma string_of_int_inj: "string_of_int a = string_of_int b \<Longrightarrow> a = b"
proof -
  assume eq: "string_of_int a = string_of_int b"
  have nodash: "CHR ''-'' \<notin> set (string_of_nat n)" for n
    using string_of_nat_digits [of n] by auto
  have hd_nat: "string_of_nat n \<noteq> CHR ''-'' # t" for n t
    using nodash [of n] by auto
  show ?thesis
  proof (cases "a < 0")
    case True
    show ?thesis
    proof (cases "b < 0")
      case bneg: True
      with True eq have "string_of_nat (nat (- a)) = string_of_nat (nat (- b))"
        by (simp add: string_of_int_def)
      then have "nat (- a) = nat (- b)" by (rule string_of_nat_inj)
      with True bneg show ?thesis by simp
    next
      case False
      with True eq show ?thesis using hd_nat [of "nat b" "string_of_nat (nat (- a))"]
        by (simp add: string_of_int_def)
    qed
  next
    case False
    show ?thesis
    proof (cases "b < 0")
      case True
      with False eq show ?thesis using hd_nat [of "nat a" "string_of_nat (nat (- b))"]
        by (simp add: string_of_int_def)
    next
      case bpos: False
      with False eq have "string_of_nat (nat a) = string_of_nat (nat b)"
        by (simp add: string_of_int_def)
      then have "nat a = nat b" by (rule string_of_nat_inj)
      with False bpos show ?thesis by simp
    qed
  qed
qed

lemma join_middle:
  "join sep (xs @ m # ys)
     = concat (map (\<lambda>x. x @ sep) xs) @ m @ concat (map (\<lambda>y. sep @ y) ys)"
proof (induction xs)
  case Nil
  show ?case by (induction ys arbitrary: m) simp_all
next
  case (Cons x xs)
  then show ?case by (cases xs) simp_all
qed

lemma map_update_value:
  "map (\<lambda>kv. (fst kv, g (snd kv))) (AList.update k v al)
     = AList.update k (g v) (map (\<lambda>kv. (fst kv, g (snd kv))) al)"
  by (induction al) auto

lemma sort_key_update_split:
  assumes "distinct (map fst M)"
  shows "sort_key fst (AList.update k v M)
           = sort_key fst (filter (\<lambda>e. fst e < k) M) @ [(k, v)]
             @ sort_key fst (filter (\<lambda>e. k < fst e) M)"
    (is "_ = ?P @ [(k, v)] @ ?S")
proof (rule sort_key_inj_key_eq)
  have dU: "distinct (map fst (AList.update k v M))" using assms by (simp add: distinct_update)
  then have dX: "distinct (AList.update k v M)" by (simp add: distinct_map)
  from dU show "inj_on fst (set (AList.update k v M))" by (simp add: distinct_map)
  have dM: "distinct M" using assms by (simp add: distinct_map)
  have "distinct (?P @ [(k, v)] @ ?S)"
    using dM by (auto simp: distinct_map)
  moreover have "set (?P @ [(k, v)] @ ?S) = set (AList.update k v M)"
    using assms by (auto simp: set_update_distinct)
  ultimately show "mset (AList.update k v M) = mset (?P @ [(k, v)] @ ?S)"
    using dX by (simp only: set_eq_iff_mset_eq_distinct [symmetric])
  show "sorted (map fst (?P @ [(k, v)] @ ?S))"
    by (auto simp: sorted_append)
qed


lemma messageString_update:
  assumes "distinct (map fst c)"
  shows "\<exists>A B. \<forall>n. messageString (AList.update ''timestamp'' (JNum n) c)
                    = A @ string_of_int n @ B"
proof -
  let ?f = "\<lambda>kv. (fst kv, sortObjectKeys (snd kv))"
  let ?mem = "\<lambda>kv. quote (fst kv) @ '':'' @ JSON_stringify (snd kv)"
  let ?M = "map ?f c"
  let ?P = "sort_key fst (filter (\<lambda>e. fst e < ''timestamp'') ?M)"
  let ?S = "sort_key fst (filter (\<lambda>e. ''timestamp'' < fst e) ?M)"
  let ?A = "''{'' @ concat (map (\<lambda>x. x @ '','') (map ?mem ?P)) @ quote ''timestamp'' @ '':''"
  let ?B = "concat (map (\<lambda>y. '','' @ y) (map ?mem ?S)) @ ''}''"
  have dM: "distinct (map fst ?M)" using assms by (simp add: comp_def)
  have "messageString (AList.update ''timestamp'' (JNum n) c) = ?A @ string_of_int n @ ?B" for n
  proof -
    have "map ?f (AList.update ''timestamp'' (JNum n) c)
            = AList.update ''timestamp'' (JNum n) ?M"
      using map_update_value [of sortObjectKeys "''timestamp''" "JNum n" c] by simp
    then have "sortObjectKeys (JObj (AList.update ''timestamp'' (JNum n) c))
            = JObj (?P @ [(''timestamp'', JNum n)] @ ?S)"
      using sort_key_update_split [OF dM, of "''timestamp''" "JNum n"] by simp
    then have "messageString (AList.update ''timestamp'' (JNum n) c)
            = ''{'' @ join '','' (map ?mem ?P @ ?mem (''timestamp'', JNum n) # map ?mem ?S) @ ''}''"
      by (simp add: messageString_def)
    also have "\<dots> = ?A @ string_of_int n @ ?B"
      by (simp only: join_middle) simp
    finally show ?thesis .
  qed
  then show ?thesis by blast
qed

lemma messageString_update_inj:
  assumes "distinct (map fst c)" "n \<noteq> n'"
  shows "messageString (AList.update ''timestamp'' (JNum n) c)
           \<noteq> messageString (AList.update ''timestamp'' (JNum n') c)"
proof -
  from messageString_update [OF assms(1)] obtain A B where
    ab: "\<And>k. messageString (AList.update ''timestamp'' (JNum k) c) = A @ string_of_int k @ B"
    by blast
  from assms(2) have "string_of_int n \<noteq> string_of_int n'"
    using string_of_int_inj by blast
  then show ?thesis by (simp add: ab)
qed

lemma signMessage_valid:
  "valid_privateKey k \<Longrightarrow>
   snd (signMessage now c k) = Inr (Signature k (messageString (ensure_timestamp now c)))"
  by (simp add: signMessage_def Wallet_signMessage_def Let_def)

text \<open>
  C1 (amended). Two constructions of one payload have the same canonical text. Signed with
  the same valid key they get a signature, and the same one, when both calls read the
  same clock value, and, when the payload carries a truthy timestamp, whatever the two
  clock values are. When the timestamp is absent or falsy the bytes signed carry the
  clock value of the call, so that two calls at different clock values give different
  signatures.
\<close>

theorem canonical_serialization_order_independent:
  assumes "reordered (JObj c1) (JObj c2)"
  shows "JSON_stringify (sortObjectKeys (JObj c1)) = JSON_stringify (sortObjectKeys (JObj c2))
       \<and> snd (signMessage now c1 privateKey) = snd (signMessage now c2 privateKey)
       \<and> (truthy (map_of c1 ''timestamp'') \<longrightarrow>
            snd (signMessage now c1 privateKey) = snd (signMessage now' c2 privateKey))
       \<and> (valid_privateKey privateKey \<longrightarrow>
            snd (signMessage now c1 privateKey)
              = Inr (Signature privateKey (messageString (ensure_timestamp now c1)))
            \<and> snd (signMessage now c2 privateKey)
              = Inr (Signature privateKey (messageString (ensure_timestamp now c1))))
       \<and> (valid_privateKey privateKey \<and> distinct (map fst c1)
            \<and> \<not> truthy (map_of c1 ''timestamp'') \<and> now \<noteq> now' \<longrightarrow>
            snd (signMessage now c1 privateKey) \<noteq> snd (signMessage now' c2 privateKey))"
proof -
  have canon: "JSON_stringify (sortObjectKeys (JObj c1)) = JSON_stringify (sortObjectKeys (JObj c2))"
    using assms by (simp only: reordered_sortObjectKeys)
  have same_clock: "snd (signMessage t c1 privateKey) = snd (signMessage t c2 privateKey)" for t
  proof -
    have "sortObjectKeys (JObj (ensure_timestamp t c1)) = sortObjectKeys (JObj (ensure_timestamp t c2))"
      using assms by (intro reordered_sortObjectKeys reordered_ensure_timestamp)
    then show ?thesis by (simp add: signMessage_def messageString_def Let_def)
  qed
  have stamped: "snd (signMessage now c1 privateKey) = snd (signMessage now' c2 privateKey)"
    if t: "truthy (map_of c1 ''timestamp'')"
  proof -
    have "ensure_timestamp now c1 = ensure_timestamp now' c1"
      using t by (simp add: ensure_timestamp_truthy)
    then have "snd (signMessage now c1 privateKey) = snd (signMessage now' c1 privateKey)"
      by (simp add: signMessage_def Let_def)
    with same_clock [of now'] show ?thesis by simp
  qed
  have produced: "snd (signMessage now c1 privateKey)
              = Inr (Signature privateKey (messageString (ensure_timestamp now c1)))
            \<and> snd (signMessage now c2 privateKey)
              = Inr (Signature privateKey (messageString (ensure_timestamp now c1)))"
    if "valid_privateKey privateKey"
    using that same_clock [of now] by (simp add: signMessage_valid)
  have differ: "snd (signMessage now c1 privateKey) \<noteq> snd (signMessage now' c2 privateKey)"
    if h: "valid_privateKey privateKey \<and> distinct (map fst c1)
            \<and> \<not> truthy (map_of c1 ''timestamp'') \<and> now \<noteq> now'"
  proof -
    from h have "messageString (ensure_timestamp now c1) \<noteq> messageString (ensure_timestamp now' c1)"
      by (simp add: ensure_timestamp_def messageString_update_inj)
    with h have "snd (signMessage now c1 privateKey) \<noteq> snd (signMessage now' c1 privateKey)"
      by (simp add: signMessage_valid)
    with same_clock [of now'] show ?thesis by simp
  qed
  from canon same_clock [of now] stamped produced differ show ?thesis by blast
qed

theorem canonical_serialization_order_independent_witness:
  "reordered (JObj [(''timestamp'', JNum 5), (''a'', JNum 1)])
             (JObj [(''a'', JNum 1), (''timestamp'', JNum 5)])
   \<and> snd (signMessage 1000 [(''timestamp'', JNum 5), (''a'', JNum 1)] example_key)
       = Inr (Signature example_key
               (CHR ''{'' # CHR 0x22 # ''a'' @ CHR 0x22 # '':1,'' @ CHR 0x22 # ''timestamp''
                 @ CHR 0x22 # '':5}''))
   \<and> snd (signMessage 2000 [(''a'', JNum 1), (''timestamp'', JNum 5)] example_key)
       = Inr (Signature example_key
               (CHR ''{'' # CHR 0x22 # ''a'' @ CHR 0x22 # '':1,'' @ CHR 0x22 # ''timestamp''
                 @ CHR 0x22 # '':5}''))
   \<and> snd (signMessage 1000 [(''a'', JNum 1), (''b'', JNum 2)] example_key)
       \<noteq> snd (signMessage 2000 [(''b'', JNum 2), (''a'', JNum 1)] example_key)"
proof -
  let ?c1 = "[(''timestamp'', JNum 5), (''a'', JNum 1)]"
  let ?c2 = "[(''a'', JNum 1), (''timestamp'', JNum 5)]"
  let ?d1 = "[(''a'', JNum 1), (''b'', JNum 2)]"
  let ?d2 = "[(''b'', JNum 2), (''a'', JNum 1)]"
  have v: "valid_privateKey example_key"
    by (simp add: valid_privateKey_def example_key_def is_hex_digit_def)
  have r: "reordered (JObj ?c1) (JObj ?c2)"
    by (rule reordered.obj) (auto intro: reordered.same)
  have t: "truthy (map_of ?c1 ''timestamp'')" by simp
  have bytes: "messageString (ensure_timestamp 1000 ?c1)
         = CHR ''{'' # CHR 0x22 # ''a'' @ CHR 0x22 # '':1,'' @ CHR 0x22 # ''timestamp''
                 @ CHR 0x22 # '':5}''"
    by code_simp
  note th = canonical_serialization_order_independent
              [OF r, where now = 1000 and now' = 2000 and privateKey = example_key]
  from th v have 1: "snd (signMessage 1000 ?c1 example_key)
               = Inr (Signature example_key (messageString (ensure_timestamp 1000 ?c1)))"
    by blast
  from th t have 2: "snd (signMessage 1000 ?c1 example_key) = snd (signMessage 2000 ?c2 example_key)"
    by blast
  have r': "reordered (JObj ?d1) (JObj ?d2)"
    by (rule reordered.obj) (auto intro: reordered.same)
  have f: "valid_privateKey example_key \<and> distinct (map fst ?d1)
            \<and> \<not> truthy (map_of ?d1 ''timestamp'') \<and> (1000::int) \<noteq> 2000"
    using v by simp
  from canonical_serialization_order_independent
         [OF r', where now = 1000 and now' = 2000 and privateKey = example_key] f
  have 3: "snd (signMessage 1000 ?d1 example_key) \<noteq> snd (signMessage 2000 ?d2 example_key)"
    by blast
  from r 1 2 3 show ?thesis by (simp only: bytes) simp
qed

text \<open>
  C1 as stated fails: a payload whose timestamp is 0, assembled in two orders and signed
  with one key at two clock values, gets two different signatures.
\<close>

theorem signMessage_clock_counterexample:
  "reordered (JObj [(''timestamp'', JNum 0), (''a'', JNum 1)])
             (JObj [(''a'', JNum 1), (''timestamp'', JNum 0)])
   \<and> snd (signMessage 1000 [(''timestamp'', JNum 0), (''a'', JNum 1)]
            ''0x0000000000000000000000000000000000000000000000000000000000000001'')
     \<noteq> snd (signMessage 1001 [(''a'', JNum 1), (''timestamp'', JNum 0)]
            ''0x0000000000000000000000000000000000000000000000000000000000000001'')"
proof
  show "reordered (JObj [(''timestamp'', JNum 0), (''a'', JNum 1)])
                  (JObj [(''a'', JNum 1), (''timestamp'', JNum 0)])"
    by (rule reordered.obj) (auto intro: reordered.same)
  show "snd (signMessage 1000 [(''timestamp'', JNum 0), (''a'', JNum 1)]
            ''0x0000000000000000000000000000000000000000000000000000000000000001'')
     \<noteq> snd (signMessage 1001 [(''a'', JNum 1), (''timestamp'', JNum 0)]
            ''0x0000000000000000000000000000000000000000000000000000000000000001'')"
    by code_simp
qed

section \<open>The timestamp written by signing\<close>

text \<open>
  C10. When the timestamp of the payload is absent or falsy (0 included), signing writes
  the clock value into the timestamp of the caller's object and leaves the other
  properties as they are; the bytes signed are those of the updated object. When the
  timestamp is a non-zero number, the caller's object is unchanged.
\<close>

theorem signMessage_timestamp_frame:
  "(\<not> truthy (map_of payload ''timestamp'') \<longrightarrow>
      fst (signMessage now payload privateKey) = AList.update ''timestamp'' (JNum now) payload
      \<and> map_of (fst (signMessage now payload privateKey)) ''timestamp'' = Some (JNum now)
      \<and> (\<forall>k. k \<noteq> ''timestamp'' \<longrightarrow>
            map_of (fst (signMessage now payload privateKey)) k = map_of payload k))
   \<and> (\<forall>n. map_of payload ''timestamp'' = Some (JNum n) \<and> n \<noteq> 0 \<longrightarrow>
         fst (signMessage now payload privateKey) = payload)
   \<and> (valid_privateKey privateKey \<longrightarrow>
         snd (signMessage now payload privateKey)
           = Inr (Signature privateKey (messageString (fst (signMessage now payload privateKey)))))"
  by (auto simp: signMessage_def ensure_timestamp_def Let_def Wallet_signMessage_def update_conv)

theorem signMessage_timestamp_frame_witness:
  "fst (signMessage 1000 [(''timestamp'', JNum 0), (''a'', JNum 1)] example_key)
     = [(''timestamp'', JNum 1000), (''a'', JNum 1)]
   \<and> fst (signMessage 1000 [(''a'', JNum 1)] example_key)
     = [(''a'', JNum 1), (''timestamp'', JNum 1000)]
   \<and> fst (signMessage 1000 [(''timestamp'', JNum 7), (''a'', JNum 1)] example_key)
     = [(''timestamp'', JNum 7), (''a'', JNum 1)]
   \<and> snd (signMessage 1000 [(''a'', JNum 1)] example_key)
     = Inr (Signature example_key (messageString [(''a'', JNum 1), (''timestamp'', JNum 1000)]))"
proof -
  have v: "valid_privateKey example_key"
    by (simp add: valid_privateKey_def example_key_def is_hex_digit_def)
  from signMessage_timestamp_frame [of "[(''timestamp'', JNum 0), (''a'', JNum 1)]" 1000 example_key]
  have 1: "fst (signMessage 1000 [(''timestamp'', JNum 0), (''a'', JNum 1)] example_key)
     = [(''timestamp'', JNum 1000), (''a'', JNum 1)]"
    by simp
  from signMessage_timestamp_frame [of "[(''a'', JNum 1)]" 1000 example_key] v
  have 2: "fst (signMessage 1000 [(''a'', JNum 1)] example_key)
             = [(''a'', JNum 1), (''timestamp'', JNum 1000)]"
    and 4: "snd (signMessage 1000 [(''a'', JNum 1)] example_key)
             = Inr (Signature example_key (messageString [(''a'', JNum 1), (''timestamp'', JNum 1000)]))"
    by simp_all
  from signMessage_timestamp_frame [of "[(''timestamp'', JNum 7), (''a'', JNum 1)]" 1000 example_key]
  have 3: "fst (signMessage 1000 [(''timestamp'', JNum 7), (''a'', JNum 1)] example_key)
     = [(''timestamp'', JNum 7), (''a'', JNum 1)]"
    by simp
  from 1 2 3 4 show ?thesis by (intro conjI)
qed

section \<open>Retry with backoff\<close>

lemma retry_loop_run:
  assumes "j < retries" "i \<le> j"
    and "\<And>k. i \<le> k \<Longrightarrow> k < j \<Longrightarrow> rate_limited (operation k)"
    and "\<not> rate_limited (operation j) \<or> Suc j = retries"
  shows "retry_loop cfg operation retries i =
           \<lparr>outcome = operation j, calls = Suc j - i,
            sleeps = map (\<lambda>k. retryDelay cfg * 2 ^ k) [i..<j]\<rparr>"
  using assms
proof (induction "j - i" arbitrary: i)
  case 0
  then have ij: "i = j" by simp
  show ?case
  proof (cases "operation j")
    case (Inl e)
    with 0(5) have "statusCode e \<noteq> Some 429 \<or> Suc j = retries"
      by (auto simp: rate_limited_def)
    with Inl ij 0(2) show ?thesis by (subst retry_loop.simps) auto
  next
    case (Inr v)
    with ij 0(2) show ?thesis by (subst retry_loop.simps) auto
  qed
next
  case (Suc d)
  then have lt: "i < j" by simp
  with Suc.prems have rl: "rate_limited (operation i)" by simp
  then obtain e where e: "operation i = Inl e" "statusCode e = Some 429"
    by (auto simp: rate_limited_def split: sum.splits)
  have IH: "retry_loop cfg operation retries (Suc i) =
           \<lparr>outcome = operation j, calls = Suc j - Suc i,
            sleeps = map (\<lambda>k. retryDelay cfg * 2 ^ k) [Suc i..<j]\<rparr>"
    using Suc.hyps(2) Suc.prems lt by (intro Suc.hyps(1)) auto
  from lt Suc.prems(1) have "i < retries" "Suc i < retries" by simp_all
  with e IH lt show ?case
    by (subst retry_loop.simps) (simp add: upt_conv_Cons Suc_diff_le)
qed

text \<open>
  C9. Let \<open>j\<close> be the first invocation that does not fail with status 429, or the last
  permitted one when all fail so. Then \<open>retryWithBackoff\<close> invokes the operation exactly
  \<open>j + 1\<close> times, sleeps \<open>retryDelay * 2^i\<close> after the failure of invocation \<open>i < j\<close>, and
  ends as invocation \<open>j\<close> does: a failure that is not a rate limit is thrown at once, and
  a rate limit on the last permitted invocation is thrown to the caller. The configured
  budget is three invocations and the base delay ten seconds.
\<close>

theorem retryWithBackoff_rate_limit:
  assumes "j < retries"
    and "\<forall>k<j. rate_limited (operation k)"
    and "\<not> rate_limited (operation j) \<or> Suc j = retries"
  shows "retryWithBackoff cfg operation retries =
           \<lparr>outcome = operation j, calls = Suc j,
            sleeps = map (\<lambda>i. retryDelay cfg * 2 ^ i) [0..<j]\<rparr>
       \<and> maxRetries orchestrator_config = 3 \<and> retryDelay orchestrator_config = 10000"
  using retry_loop_run [of j retries 0 operation cfg] assms
  by (simp add: retryWithBackoff_def orchestrator_config_def)

theorem retryWithBackoff_rate_limit_witness:
  "retryWithBackoff orchestrator_config
     (\<lambda>i. Inl (Thrown ''Error'' ''Too Many Requests'' (Some 429)) :: js_error + unit)
     (maxRetries orchestrator_config)
   = \<lparr>outcome = Inl (Thrown ''Error'' ''Too Many Requests'' (Some 429)), calls = 3,
      sleeps = [10000, 20000]\<rparr>
   \<and> retryWithBackoff orchestrator_config
     (\<lambda>i. if i = 0 then Inl (Thrown ''Error'' ''Too Many Requests'' (Some 429))
           else Inl (Thrown ''Error'' ''boom'' None) :: js_error + unit)
     (maxRetries orchestrator_config)
   = \<lparr>outcome = Inl (Thrown ''Error'' ''boom'' None), calls = 2, sleeps = [10000]\<rparr>"
  using retryWithBackoff_rate_limit [of 2 3
      "\<lambda>i. Inl (Thrown ''Error'' ''Too Many Requests'' (Some 429)) :: js_error + unit"
      orchestrator_config]
    retryWithBackoff_rate_limit [of 1 3
      "\<lambda>i. if i = 0 then Inl (Thrown ''Error'' ''Too Many Requests'' (Some 429))
           else Inl (Thrown ''Error'' ''boom'' None) :: js_error + unit"
      orchestrator_config]
  by (simp add: rate_limited_def orchestrator_config_def upt_rec numeral_2_eq_2)

section \<open>Reconnect backoff\<close>

lemma scheduled_delays_append:
  "scheduled_delays (a @ b) = scheduled_delays a @ scheduled_delays b"
  by (induction a rule: scheduled_delays.induct) auto

lemma ws_run_append:
  "fst (ws_run s (a @ b)) = fst (ws_run (fst (ws_run s a)) b)"
  "snd (ws_run s (a @ b)) = snd (ws_run s a) @ snd (ws_run (fst (ws_run s a)) b)"
  by (induction a arbitrary: s) (auto simp: Let_def)

lemma ws_step_delay_bound:
  "d \<le> MAX_RECONNECT_DELAY" if "d \<in> set (scheduled_delays (snd (ws_step s e)))"
proof (cases e)
  case SocketClose
  with that show ?thesis
    by (auto simp: handleDisconnect_def Let_def split: if_splits)
qed (use that in \<open>auto simp: on_open_def subscribeToRoom_def handleMessage_def heartbeat_callback_def
       Let_def split: if_splits option.splits\<close>)

lemma ws_run_delay_bound:
  "d \<in> set (scheduled_delays (snd (ws_run s es))) \<Longrightarrow> d \<le> MAX_RECONNECT_DELAY"
proof (induction es arbitrary: s)
  case Nil
  then show ?case by simp
next
  case (Cons e es)
  from Cons.prems have "d \<in> set (scheduled_delays (snd (ws_step s e)))
      \<or> d \<in> set (scheduled_delays (snd (ws_run (fst (ws_step s e)) es)))"
    by (simp add: Let_def scheduled_delays_append del: ws_step.simps)
  then show ?case
    using ws_step_delay_bound Cons.IH by blast
qed

lemma step_close:
  assumes "isActive s" "ws s \<noteq> None" "ws s \<noteq> Some CLOSED"
  shows "ws_step s SocketClose =
           (s\<lparr>ws := Some CLOSED, heartbeatInterval := False,
              reconnectTimer := Some (min (1000 * 2 ^ reconnectAttempt s) MAX_RECONNECT_DELAY)\<rparr>,
            [SetTimeout (min (1000 * 2 ^ reconnectAttempt s) MAX_RECONNECT_DELAY), CallOnClose])"
  using assms by (simp add: handleDisconnect_def Let_def)

lemma step_timer:
  assumes "reconnectTimer s = Some d"
  shows "ws_step s (ReconnectTimerFires True) =
           (s\<lparr>reconnectAttempt := Suc (reconnectAttempt s), ws := Some CONNECTING,
              reconnectTimer := None\<rparr>, [])"
  using assms by (simp add: reconnect_callback_def connect_def)

lemma step_open:
  assumes "ws s = Some CONNECTING"
  shows "fst (ws_step s (SocketOpen now)) =
           s\<lparr>ws := Some OPEN, reconnectAttempt := 0, heartbeatInterval := True,
             reconnectAttempts := 0\<rparr>
       \<and> scheduled_delays (snd (ws_step s (SocketOpen now))) = []"
  using assms by (simp add: on_open_def subscribeToRoom_def Let_def)

lemma ws_run_Cons:
  "ws_run s (e # es) = (fst (ws_run (fst (ws_step s e)) es),
                        snd (ws_step s e) @ snd (ws_run (fst (ws_step s e)) es))"
  by (simp add: Let_def del: ws_step.simps)

lemma failed_attempts_Suc:
  "failed_attempts (Suc n) = ReconnectTimerFires True # SocketClose # failed_attempts n"
  by (simp add: failed_attempts_def)

text \<open>The close of a socket on an active channel, followed by failed attempts.\<close>

lemma close_then_failures:
  assumes "isActive s" "ws s \<noteq> None" "ws s \<noteq> Some CLOSED"
  shows "scheduled_delays (snd (ws_run s (SocketClose # failed_attempts n)))
           = map (\<lambda>k. min (1000 * 2 ^ (reconnectAttempt s + k)) MAX_RECONNECT_DELAY) [0..<Suc n]
       \<and> isActive (fst (ws_run s (SocketClose # failed_attempts n)))
       \<and> reconnectTimer (fst (ws_run s (SocketClose # failed_attempts n))) \<noteq> None"
  using assms
proof (induction n arbitrary: s)
  case 0
  then show ?case
    by (simp add: ws_run_Cons step_close failed_attempts_def del: ws_step.simps ws_run.simps(2))
next
  case (Suc n)
  let ?d = "min (1000 * 2 ^ reconnectAttempt s) MAX_RECONNECT_DELAY"
  let ?s1 = "s\<lparr>ws := Some CLOSED, heartbeatInterval := False, reconnectTimer := Some ?d\<rparr>"
  let ?s2 = "?s1\<lparr>reconnectAttempt := Suc (reconnectAttempt ?s1), ws := Some CONNECTING,
                   reconnectTimer := None\<rparr>"
  have c: "ws_step s SocketClose = (?s1, [SetTimeout ?d, CallOnClose])"
    using Suc.prems by (rule step_close)
  have t: "ws_step ?s1 (ReconnectTimerFires True) = (?s2, [])"
    by (rule step_timer) simp
  have s2: "isActive ?s2" "ws ?s2 \<noteq> None" "ws ?s2 \<noteq> Some CLOSED"
    using Suc.prems(1) by simp_all
  have run: "ws_run s (SocketClose # failed_attempts (Suc n))
      = (fst (ws_run ?s2 (SocketClose # failed_attempts n)),
         [SetTimeout ?d, CallOnClose] @ snd (ws_run ?s2 (SocketClose # failed_attempts n)))"
    by (simp only: failed_attempts_Suc ws_run_Cons [of s] ws_run_Cons [of ?s1] c t fst_conv snd_conv
          append_Nil)
  have IH: "scheduled_delays (snd (ws_run ?s2 (SocketClose # failed_attempts n)))
           = map (\<lambda>k. min (1000 * 2 ^ (reconnectAttempt ?s2 + k)) MAX_RECONNECT_DELAY) [0..<Suc n]
       \<and> isActive (fst (ws_run ?s2 (SocketClose # failed_attempts n)))
       \<and> reconnectTimer (fst (ws_run ?s2 (SocketClose # failed_attempts n))) \<noteq> None"
    by (rule Suc.IH [OF s2])
  have m: "map (\<lambda>k. min (1000 * 2 ^ (reconnectAttempt s + k)) MAX_RECONNECT_DELAY) [0..<Suc (Suc n)]
        = ?d # map (\<lambda>k. min (1000 * 2 ^ (Suc (reconnectAttempt s) + k)) MAX_RECONNECT_DELAY) [0..<Suc n]"
    by (subst map_upt_Suc) simp
  have a: "reconnectAttempt ?s2 = Suc (reconnectAttempt s)" by simp
  from IH show ?case
    unfolding run m a by (simp add: scheduled_delays_append del: ws_step.simps ws_run.simps upt_Suc)
qed

lemma fresh_open:
  "isActive s \<Longrightarrow>
   isActive (fst (ws_step (connect True s) (SocketOpen now)))
   \<and> ws (fst (ws_step (connect True s) (SocketOpen now))) = Some OPEN
   \<and> reconnectAttempt (fst (ws_step (connect True s) (SocketOpen now))) = 0"
  by (simp add: connect_def on_open_def Let_def)

lemma reopen_then_close:
  assumes "isActive s" "reconnectTimer s = Some d"
  shows "scheduled_delays (snd (ws_run s [ReconnectTimerFires True, SocketOpen now, SocketClose]))
           = [1000]"
proof -
  let ?s1 = "s\<lparr>reconnectAttempt := Suc (reconnectAttempt s), ws := Some CONNECTING,
                  reconnectTimer := None\<rparr>"
  let ?s2 = "?s1\<lparr>ws := Some OPEN, reconnectAttempt := 0, heartbeatInterval := True,
             reconnectAttempts := 0\<rparr>"
  have t: "ws_step s (ReconnectTimerFires True) = (?s1, [])"
    using assms(2) by (rule step_timer)
  have "ws ?s1 = Some CONNECTING" by simp
  from step_open [OF this, of now]
  have op: "fst (ws_step ?s1 (SocketOpen now)) = ?s2"
    "scheduled_delays (snd (ws_step ?s1 (SocketOpen now))) = []" by simp_all
  have "isActive ?s2" "ws ?s2 \<noteq> None" "ws ?s2 \<noteq> Some CLOSED" using assms(1) by simp_all
  from step_close [OF this]
  have cl: "scheduled_delays (snd (ws_step ?s2 SocketClose)) = [1000]"
    by (simp add: MAX_RECONNECT_DELAY_def)
  show ?thesis
    by (simp only: ws_run_Cons [of s] ws_run_Cons [of ?s1] ws_run_Cons [of ?s2] t op cl
          fst_conv snd_conv ws_run.simps(1) scheduled_delays_append scheduled_delays.simps(1)
          append_Nil append_Nil2)
qed

text \<open>
  C3 (amended). On an active channel whose socket has just opened, the close of the socket
  followed by \<open>n\<close> failed reconnect attempts of the channel's own reconnect timer sets
  reconnect timers of \<open>min (1000 * 2^k) 30000\<close> milliseconds for \<open>k = 0, \<dots>, n\<close>:
  1000, 2000, 4000 and so on, doubling up to the cap. No timer set in any run of any
  channel exceeds 30000. An open resets the attempt counter, so that after a reconnect
  that succeeds the next close sets a timer of 1000 again. A reconnect attempt started
  by a call of \<open>connect\<close> from outside does not advance the counter: when it fails,
  the timer set is the one of the counter as it was.
\<close>

theorem reconnect_backoff:
  assumes "isActive s"
  shows "scheduled_delays
           (snd (ws_run (fst (ws_step (connect True s) (SocketOpen now)))
                   (SocketClose # failed_attempts n)))
           = map (\<lambda>k. min (1000 * 2 ^ k) 30000) [0..<Suc n]
       \<and> (\<forall>d \<in> set (scheduled_delays (snd (ws_run s' es))). d \<le> 30000)
       \<and> reconnectAttempt (fst (ws_step (connect True s) (SocketOpen now))) = 0
       \<and> scheduled_delays
           (snd (ws_run (fst (ws_step (connect True s) (SocketOpen now)))
                   ((SocketClose # failed_attempts n)
                     @ [ReconnectTimerFires True, SocketOpen now', SocketClose])))
           = map (\<lambda>k. min (1000 * 2 ^ k) 30000) [0..<Suc n] @ [1000]
       \<and> reconnectTimer (connect True s) = None
       \<and> reconnectAttempt (connect True s) = reconnectAttempt s
       \<and> scheduled_delays (snd (ws_step (connect True s) SocketClose))
           = [min (1000 * 2 ^ reconnectAttempt s) 30000]"
proof -
  let ?s0 = "fst (ws_step (connect True s) (SocketOpen now))"
  from assms have s0: "isActive ?s0" "ws ?s0 = Some OPEN" "reconnectAttempt ?s0 = 0"
    using fresh_open [of s now] by blast+
  then have "ws ?s0 \<noteq> None" "ws ?s0 \<noteq> Some CLOSED" by (simp_all only:) simp_all
  from close_then_failures [OF s0(1) this, of n] s0(3)
  have run: "scheduled_delays (snd (ws_run ?s0 (SocketClose # failed_attempts n)))
           = map (\<lambda>k. min (1000 * 2 ^ k) 30000) [0..<Suc n]"
    and act: "isActive (fst (ws_run ?s0 (SocketClose # failed_attempts n)))"
    and tim: "reconnectTimer (fst (ws_run ?s0 (SocketClose # failed_attempts n))) \<noteq> None"
    by (simp_all add: MAX_RECONNECT_DELAY_def del: ws_run.simps ws_step.simps upt_Suc)
  let ?s1 = "fst (ws_run ?s0 (SocketClose # failed_attempts n))"
  from tim obtain d where "reconnectTimer ?s1 = Some d" by blast
  with act have tail:
    "scheduled_delays (snd (ws_run ?s1 [ReconnectTimerFires True, SocketOpen now', SocketClose])) = [1000]"
    by (rule reopen_then_close)
  have bound: "\<forall>d \<in> set (scheduled_delays (snd (ws_run s' es))). d \<le> 30000"
    using ws_run_delay_bound [of _ s' es] by (auto simp: MAX_RECONNECT_DELAY_def)
  have both: "scheduled_delays
           (snd (ws_run ?s0 ((SocketClose # failed_attempts n)
                     @ [ReconnectTimerFires True, SocketOpen now', SocketClose])))
           = map (\<lambda>k. min (1000 * 2 ^ k) 30000) [0..<Suc n] @ [1000]"
    by (simp only: ws_run_append scheduled_delays_append run tail)
  have "isActive (connect True s)" "ws (connect True s) \<noteq> None"
    "ws (connect True s) \<noteq> Some CLOSED"
    using assms by (simp_all add: connect_def)
  from step_close [OF this]
  have outside: "scheduled_delays (snd (ws_step (connect True s) SocketClose))
           = [min (1000 * 2 ^ reconnectAttempt s) 30000]"
    by (simp add: connect_def MAX_RECONNECT_DELAY_def)
  have cancel: "reconnectTimer (connect True s) = None"
    and keep: "reconnectAttempt (connect True s) = reconnectAttempt s"
    by (simp_all add: connect_def)
  show ?thesis
    by (intro conjI) (rule run bound s0(3) both cancel keep outside)+
qed

theorem reconnect_backoff_witness:
  "isActive (SharedWebSocket_new 0
      \<lparr>cfg_endpoint = ''http://localhost:3000'', cfg_roomId = 290, auth_walletAddress = ''0xabc'',
       auth_agentId = 50, auth_timestamp = None, auth_signature = None, onClose = LogDisconnect\<rparr>)
   \<and> scheduled_delays
       (snd (ws_run (fst (ws_step (connect True (SharedWebSocket_new 0
      \<lparr>cfg_endpoint = ''http://localhost:3000'', cfg_roomId = 290, auth_walletAddress = ''0xabc'',
       auth_agentId = 50, auth_timestamp = None, auth_signature = None, onClose = LogDisconnect\<rparr>))
                 (SocketOpen 1)))
               (SocketClose # failed_attempts 6)))
       = [1000, 2000, 4000, 8000, 16000, 30000, 30000]
   \<and> (16000::nat) \<le> 30000
   \<and> scheduled_delays
       (snd (ws_step (connect True (SharedWebSocket_new 0
      \<lparr>cfg_endpoint = ''http://localhost:3000'', cfg_roomId = 290, auth_walletAddress = ''0xabc'',
       auth_agentId = 50, auth_timestamp = None, auth_signature = None, onClose = LogDisconnect\<rparr>))
               SocketClose))
       = [1000]"
proof -
  let ?c = "SharedWebSocket_new 0
      \<lparr>cfg_endpoint = ''http://localhost:3000'', cfg_roomId = 290, auth_walletAddress = ''0xabc'',
       auth_agentId = 50, auth_timestamp = None, auth_signature = None, onClose = LogDisconnect\<rparr>"
  have a: "isActive ?c" by (simp add: SharedWebSocket_new_def)
  have m: "map (\<lambda>k. min (1000 * 2 ^ k) 30000) [0..<Suc 6]
             = [1000, 2000, 4000, 8000, 16000, 30000, 30000::nat]"
  proof -
    have u: "[0..<Suc 6] = [0, 1, 2, 3, 4, 5, 6]" by (simp add: upt_rec)
    show ?thesis by (simp only: u) simp
  qed
  have "scheduled_delays (snd (ws_run (fst (ws_step (connect True ?c) (SocketOpen 1)))
               (SocketClose # failed_attempts 6)))
        = map (\<lambda>k. min (1000 * 2 ^ k) 30000) [0..<Suc 6]"
    using reconnect_backoff [OF a, where now = 1 and n = 6] by (rule conjunct1)
  with a have run: "scheduled_delays (snd (ws_run (fst (ws_step (connect True ?c) (SocketOpen 1)))
               (SocketClose # failed_attempts 6)))
        = [1000, 2000, 4000, 8000, 16000, 30000, 30000]"
    by (simp only: m)
  have "\<forall>d \<in> set (scheduled_delays (snd (ws_run (fst (ws_step (connect True ?c) (SocketOpen 1)))
               (SocketClose # failed_attempts 6)))). d \<le> 30000"
    using reconnect_backoff [OF a, where s' = "fst (ws_step (connect True ?c) (SocketOpen 1))"
        and es = "SocketClose # failed_attempts 6"]
    by blast
  then have le: "(16000::nat) \<le> 30000" unfolding run by simp
  have "scheduled_delays (snd (ws_step (connect True ?c) SocketClose))
          = [min (1000 * 2 ^ reconnectAttempt ?c) 30000]"
    using reconnect_backoff [OF a] by blast
  then have out: "scheduled_delays (snd (ws_step (connect True ?c) SocketClose)) = [1000]"
    by (simp add: SharedWebSocket_new_def del: ws_step.simps)
  from a run le out show ?thesis by (intro conjI)
qed

section \<open>The effect registries\<close>

lemma update_filter_key:
  "distinct (map fst al) \<Longrightarrow> k \<in> fst ` set al \<Longrightarrow>
   filter (\<lambda>kv. fst kv = k) (AList.update k v al) = [(k, v)]"
proof (induction al)
  case Nil
  then show ?case by simp
next
  case (Cons p ps)
  show ?case
  proof (cases "fst p = k")
    case True
    with Cons.prems(1) have "\<forall>q \<in> set ps. fst q \<noteq> k" by (auto simp: image_iff)
    then have "filter (\<lambda>kv. fst kv = k) ps = []" by (simp add: filter_empty_conv)
    with True show ?thesis by simp
  next
    case False
    with Cons show ?thesis by auto
  qed
qed

lemma update_filter_key_new:
  "k \<notin> fst ` set al \<Longrightarrow> filter (\<lambda>kv. fst kv = k) (AList.update k v al) = [(k, v)]"
  by (induction al) auto

lemma update_twice_filter:
  assumes "distinct (map fst al)"
  shows "filter (\<lambda>kv. fst kv = k) (AList.update k v2 (AList.update k v1 al)) = [(k, v2)]"
proof -
  have "distinct (map fst (AList.update k v1 al))" using assms by (simp add: distinct_update)
  moreover have "k \<in> fst ` set (AList.update k v1 al)"
    by (simp add: update_keys del: set_map flip: set_map)
  ultimately show ?thesis by (rule update_filter_key)
qed

lemma filter_snd_by_key:
  "\<forall>kv \<in> set reg. f (snd kv) = fst kv \<Longrightarrow>
   filter (\<lambda>e. f e = T) (map snd reg) = map snd (filter (\<lambda>kv. fst kv = T) reg)"
  by (induction reg) auto

lemma keyed_update:
  assumes "\<forall>kv \<in> set reg. f (snd kv) = fst kv" "f a = k"
  shows "\<forall>kv \<in> set (AList.update k a reg). f (snd kv) = fst kv"
  using assms by (induction reg) auto

lemma delete_absent: "k \<notin> fst ` set al \<Longrightarrow> AList.delete k al = al"
  by (induction al) auto


text \<open>
  C7 (amended). In the registry of \<open>AgentClient\<close>, whose records are stored under
  their type, activating a type twice leaves exactly one record of that type, the one
  activated last, and removing a type that has no record leaves the registry as it is.
  The registry of \<open>PVPVAIIntegration\<close> is keyed by the target instead: two actions on
  one target leave exactly one record for the target, the later one, and removing the
  record of a target that has none leaves the registry as it is.
\<close>

theorem effect_registry_single_slot:
  "(keyed_by_type reg \<and> effect_type a1 = T \<and> effect_type a2 = T \<longrightarrow>
      effects_of_type T
        (handlePvPStatusUpdate
          (handlePvPStatusUpdate reg \<lparr>status_type = ''PVP_ACTION_ENACTED'', action = a1\<rparr>)
          \<lparr>status_type = ''PVP_ACTION_ENACTED'', action = a2\<rparr>) = [a2])
   \<and> (T \<notin> fst ` set reg \<and> effect_type a = T \<longrightarrow>
        handlePvPStatusUpdate reg \<lparr>status_type = ''PVP_STATUS_REMOVED'', action = a\<rparr> = reg)
   \<and> (distinct (map fst areg) \<and> actionType b1 \<noteq> [] \<and> actionType b2 \<noteq> []
        \<and> targetId b1 = targetId b2 \<longrightarrow>
        filter (\<lambda>kv. fst kv = targetId b2) (updatePvPStatus (updatePvPStatus areg b1) b2)
          = [(targetId b2, b2)])
   \<and> (targetId b \<notin> fst ` set areg \<and> actionType b = [] \<longrightarrow> updatePvPStatus areg b = areg)"
proof (intro conjI impI)
  assume h: "keyed_by_type reg \<and> effect_type a1 = T \<and> effect_type a2 = T"
  let ?r = "AList.update T a2 (AList.update T a1 reg)"
  from h have k: "\<forall>kv \<in> set ?r. effect_type (snd kv) = fst kv"
    by (intro keyed_update) (auto simp: keyed_by_type_def)
  from h have "filter (\<lambda>kv. fst kv = T) ?r = [(T, a2)]"
    by (intro update_twice_filter) (simp add: keyed_by_type_def)
  with k have "effects_of_type T ?r = [a2]"
    by (simp add: effects_of_type_def filter_snd_by_key)
  with h show "effects_of_type T
        (handlePvPStatusUpdate
          (handlePvPStatusUpdate reg \<lparr>status_type = ''PVP_ACTION_ENACTED'', action = a1\<rparr>)
          \<lparr>status_type = ''PVP_ACTION_ENACTED'', action = a2\<rparr>) = [a2]"
    by (simp add: handlePvPStatusUpdate_def)
next
  assume "T \<notin> fst ` set reg \<and> effect_type a = T"
  then show "handlePvPStatusUpdate reg \<lparr>status_type = ''PVP_STATUS_REMOVED'', action = a\<rparr> = reg"
    by (simp add: handlePvPStatusUpdate_def delete_absent)
next
  assume h: "distinct (map fst areg) \<and> actionType b1 \<noteq> [] \<and> actionType b2 \<noteq> []
        \<and> targetId b1 = targetId b2"
  then have "filter (\<lambda>kv. fst kv = targetId b2)
               (AList.update (targetId b2) b2 (AList.update (targetId b2) b1 areg))
             = [(targetId b2, b2)]"
    by (intro update_twice_filter) simp
  with h show "filter (\<lambda>kv. fst kv = targetId b2) (updatePvPStatus (updatePvPStatus areg b1) b2)
          = [(targetId b2, b2)]"
    by (simp add: updatePvPStatus_def)
next
  assume "targetId b \<notin> fst ` set areg \<and> actionType b = []"
  then show "updatePvPStatus areg b = areg"
    by (simp add: updatePvPStatus_def delete_absent)
qed

theorem effect_registry_single_slot_witness:
  "effects_of_type ''POISON''
     (handlePvPStatusUpdate
       (handlePvPStatusUpdate
          [(''SILENCE'', \<lparr>effect_type = ''SILENCE'', find_pat = [], replace_by = [],
                           caseSensitive = False\<rparr>)]
          \<lparr>status_type = ''PVP_ACTION_ENACTED'',
           action = \<lparr>effect_type = ''POISON'', find_pat = ''good'', replace_by = ''bad'',
                     caseSensitive = False\<rparr>\<rparr>)
       \<lparr>status_type = ''PVP_ACTION_ENACTED'',
        action = \<lparr>effect_type = ''POISON'', find_pat = ''yes'', replace_by = ''no'',
                  caseSensitive = True\<rparr>\<rparr>)
     = [\<lparr>effect_type = ''POISON'', find_pat = ''yes'', replace_by = ''no'', caseSensitive = True\<rparr>]
   \<and> handlePvPStatusUpdate
        [(''SILENCE'', \<lparr>effect_type = ''SILENCE'', find_pat = [], replace_by = [],
                         caseSensitive = False\<rparr>)]
        \<lparr>status_type = ''PVP_STATUS_REMOVED'',
         action = \<lparr>effect_type = ''POISON'', find_pat = ''yes'', replace_by = ''no'',
                   caseSensitive = True\<rparr>\<rparr>
      = [(''SILENCE'', \<lparr>effect_type = ''SILENCE'', find_pat = [], replace_by = [],
                         caseSensitive = False\<rparr>)]
   \<and> filter (\<lambda>kv. fst kv = ''50'')
        (updatePvPStatus
          (updatePvPStatus
             [(''56'', \<lparr>actionType = ''POISON'', targetId = ''56'', parameters = JNull\<rparr>)]
             \<lparr>actionType = ''SILENCE'', targetId = ''50'', parameters = JNull\<rparr>)
          \<lparr>actionType = ''DEAFEN'', targetId = ''50'', parameters = JNull\<rparr>)
     = [(''50'', \<lparr>actionType = ''DEAFEN'', targetId = ''50'', parameters = JNull\<rparr>)]
   \<and> updatePvPStatus
        [(''56'', \<lparr>actionType = ''POISON'', targetId = ''56'', parameters = JNull\<rparr>)]
        \<lparr>actionType = [], targetId = ''50'', parameters = JNull\<rparr>
      = [(''56'', \<lparr>actionType = ''POISON'', targetId = ''56'', parameters = JNull\<rparr>)]"
  using effect_registry_single_slot
    [where reg = "[(''SILENCE'', \<lparr>effect_type = ''SILENCE'', find_pat = [], replace_by = [],
                                   caseSensitive = False\<rparr>)]"
       and ?a1.0 = "\<lparr>effect_type = ''POISON'', find_pat = ''good'', replace_by = ''bad'',
                    caseSensitive = False\<rparr>"
       and T = "''POISON''"
       and ?a2.0 = "\<lparr>effect_type = ''POISON'', find_pat = ''yes'', replace_by = ''no'',
                    caseSensitive = True\<rparr>"
       and a = "\<lparr>effect_type = ''POISON'', find_pat = ''yes'', replace_by = ''no'',
                 caseSensitive = True\<rparr>"
       and areg = "[(''56'', \<lparr>actionType = ''POISON'', targetId = ''56'', parameters = JNull\<rparr>)]"
       and ?b1.0 = "\<lparr>actionType = ''SILENCE'', targetId = ''50'', parameters = JNull\<rparr>"
       and ?b2.0 = "\<lparr>actionType = ''DEAFEN'', targetId = ''50'', parameters = JNull\<rparr>"
       and b = "\<lparr>actionType = [], targetId = ''50'', parameters = JNull\<rparr>"]
  by (simp add: keyed_by_type_def)

text \<open>
  C7 as stated fails on the registry of \<open>PVPVAIIntegration\<close>: two activations of one
  type on two targets leave two records of that type.
\<close>

theorem updatePvPStatus_type_counterexample:
  "length (actions_of_type ''SILENCE''
     (updatePvPStatus
       (updatePvPStatus [] \<lparr>actionType = ''SILENCE'', targetId = ''50'', parameters = JNull\<rparr>)
       \<lparr>actionType = ''SILENCE'', targetId = ''56'', parameters = JNull\<rparr>)) = 2"
  by (simp add: updatePvPStatus_def actions_of_type_def)

section \<open>The poison effect\<close>







section \<open>Turn order\<close>

lemma agent_turns_subseq:
  "subseq (fst (agent_turns cfg env agents i)) (drop i agents)"
proof (induction cfg env agents i rule: agent_turns.induct)
  case (1 cfg env agents i)
  show ?case
  proof (cases "i < length agents \<and> running env i")
    case False
    then have "agent_turns cfg env agents i = ([], None)"
      by (subst agent_turns.simps) auto
    then show ?thesis by simp
  next
    case True
    then have d: "drop i agents = agents ! i # drop (Suc i) agents"
      by (simp add: Cons_nth_drop_Suc)
    show ?thesis
    proof (cases "handleAgentTurn cfg (agent_turn env i)")
      case (Inl e)
      with True show ?thesis by (subst agent_turns.simps) simp
    next
      case (Inr emitted)
      with True 1 have "subseq (fst (agent_turns cfg env agents (Suc i))) (drop (Suc i) agents)"
        by simp
      with True Inr d show ?thesis
        by (subst agent_turns.simps) (auto simp: Let_def)
    qed
  qed
qed

lemma good_agent_turn:
  "good_turn t \<Longrightarrow> handleAgentTurn orchestrator_config t = Inr True"
  by (auto simp: good_turn_def handleAgentTurn_def retryWithBackoff_def retry_loop.simps
        orchestrator_config_def send_result_def split: option.splits)

lemma good_gm_turn:
  "client_present t \<Longrightarrow> sends t 0 = Emitted \<Longrightarrow> handleGMTurn orchestrator_config t = Inr True"
  by (simp add: handleGMTurn_def retryWithBackoff_def retry_loop.simps
        orchestrator_config_def send_result_def)

lemma agent_turns_all:
  assumes "\<forall>j<length agents. running env j \<and> good_turn (agent_turn env j)"
  shows "fst (agent_turns orchestrator_config env agents i) = drop i agents"
proof (induction "length agents - i" arbitrary: i)
  case 0
  then show ?case by (subst agent_turns.simps) simp
next
  case (Suc d)
  then have lt: "i < length agents" by simp
  with assms have "running env i" "handleAgentTurn orchestrator_config (agent_turn env i) = Inr True"
    by (simp_all add: good_agent_turn)
  moreover from Suc lt have "fst (agent_turns orchestrator_config env agents (Suc i)) = drop (Suc i) agents"
    by simp
  ultimately show ?case using lt
    by (subst agent_turns.simps) (simp add: Let_def Cons_nth_drop_Suc)
qed

lemma debate_round_subseq: "subseq (debate_round cfg env M agents) (M # agents)"
proof -
  have s: "subseq (fst (agent_turns cfg env agents 0)) agents"
    using agent_turns_subseq [of cfg env agents 0] by simp
  then show ?thesis
    by (auto simp: debate_round_def split: sum.splits)
qed

lemma debate_loop_subseq:
  "r \<in> set (debate_loop cfg M agents rounds) \<Longrightarrow> subseq r (M # agents)"
  by (induction rounds) (auto simp: debate_round_subseq split: if_splits)

text \<open>
  C2 (amended). In every iteration of the loop the participants that emit an envelope
  form a subsequence of Moderator, first Debater, \<dots>, last Debater: the Moderator comes
  before every Debater, and the Debaters keep their construction order, in every round.
  The order is exactly Moderator followed by all Debaters in an iteration in which every
  turn generates a text and emits it at its first invocation and the running flag stays
  set.
\<close>

theorem debate_round_order:
  "subseq (debate_round cfg env M agents) (M # agents)
   \<and> (\<forall>r \<in> set (debate_loop cfg M agents rounds). subseq r (M # agents))
   \<and> (client_present (gm_turn env) \<and> sends (gm_turn env) 0 = Emitted
        \<and> (\<forall>j<length agents. running env j \<and> good_turn (agent_turn env j)) \<longrightarrow>
        debate_round orchestrator_config env M agents = M # agents)"
proof (intro conjI ballI impI)
  show "subseq (debate_round cfg env M agents) (M # agents)" by (rule debate_round_subseq)
  show "subseq r (M # agents)" if "r \<in> set (debate_loop cfg M agents rounds)" for r
    using that by (rule debate_loop_subseq)
  assume h: "client_present (gm_turn env) \<and> sends (gm_turn env) 0 = Emitted
        \<and> (\<forall>j<length agents. running env j \<and> good_turn (agent_turn env j))"
  then have "fst (agent_turns orchestrator_config env agents 0) = drop 0 agents"
    by (intro agent_turns_all) simp
  with h show "debate_round orchestrator_config env M agents = M # agents"
    by (simp add: debate_round_def good_gm_turn)
qed


theorem debate_round_order_witness:
  "debate_round orchestrator_config smooth_round ''M'' [''A'', ''B'', ''C'']
     = [''M'', ''A'', ''B'', ''C'']
   \<and> subseq (debate_round orchestrator_config quiet_moderator_round ''M'' [''A'', ''B'', ''C''])
       [''M'', ''A'', ''B'', ''C'']"
proof -
  have 1: "debate_round orchestrator_config smooth_round ''M'' [''A'', ''B'', ''C'']
             = [''M'', ''A'', ''B'', ''C'']"
    using debate_round_order
      [where env = smooth_round and M = "''M''" and agents = "[''A'', ''B'', ''C'']"]
    by (simp add: good_turn_def smooth_round_def emitting_turn_def)
  have "debate_round orchestrator_config quiet_moderator_round ''M'' [''A'', ''B'', ''C'']
          \<in> set (debate_loop orchestrator_config ''M'' [''A'', ''B'', ''C'']
                   [(True, quiet_moderator_round)])"
    by simp
  then have 2: "subseq (debate_round orchestrator_config quiet_moderator_round ''M'' [''A'', ''B'', ''C''])
                  [''M'', ''A'', ''B'', ''C'']"
    using debate_round_order
      [where cfg = orchestrator_config and M = "''M''" and agents = "[''A'', ''B'', ''C'']"
         and rounds = "[(True, quiet_moderator_round)]"]
    by blast
  from 1 2 show ?thesis by (rule conjI)
qed

text \<open>
  C2 as stated fails: when the Moderator's call generates no text, the round emits
  A, B, C without M; when the send of the first Debater throws, the round emits M alone,
  and the next round starts with M again.
\<close>

theorem debate_round_counterexample:
  "debate_round orchestrator_config quiet_moderator_round ''M'' [''A'', ''B'', ''C'']
     = [''A'', ''B'', ''C'']
   \<and> debate_loop orchestrator_config ''M'' [''A'', ''B'', ''C'']
       [(True, failing_debater_round), (True, smooth_round)]
     = [[''M''], [''M'', ''A'', ''B'', ''C'']]"
proof
  have "fst (agent_turns orchestrator_config quiet_moderator_round [''A'', ''B'', ''C''] 0)
          = drop 0 [''A'', ''B'', ''C'']"
    by (rule agent_turns_all)
       (simp add: good_turn_def quiet_moderator_round_def emitting_turn_def)
  moreover have "handleGMTurn orchestrator_config (gm_turn quiet_moderator_round) = Inr False"
    by (simp add: handleGMTurn_def retryWithBackoff_def retry_loop.simps orchestrator_config_def
          send_result_def quiet_moderator_round_def emitting_turn_def)
  ultimately show "debate_round orchestrator_config quiet_moderator_round ''M'' [''A'', ''B'', ''C'']
                     = [''A'', ''B'', ''C'']"
    by (simp add: debate_round_def)
next
  have "handleAgentTurn orchestrator_config (agent_turn failing_debater_round 0)
          = Inl (Thrown ''Error'' ''Network Error'' None)"
    by (simp add: handleAgentTurn_def retryWithBackoff_def retry_loop.simps orchestrator_config_def
          send_result_def failing_debater_round_def emitting_turn_def)
  then have "fst (agent_turns orchestrator_config failing_debater_round [''A'', ''B'', ''C''] 0) = []"
    by (subst agent_turns.simps) simp
  moreover have "handleGMTurn orchestrator_config (gm_turn failing_debater_round) = Inr True"
    by (rule good_gm_turn) (simp_all add: failing_debater_round_def emitting_turn_def)
  ultimately have 1: "debate_round orchestrator_config failing_debater_round ''M'' [''A'', ''B'', ''C'']
                        = [''M'']"
    by (simp add: debate_round_def)
  have "fst (agent_turns orchestrator_config smooth_round [''A'', ''B'', ''C''] 0)
          = drop 0 [''A'', ''B'', ''C'']"
    by (rule agent_turns_all) (simp add: good_turn_def smooth_round_def emitting_turn_def)
  moreover have "handleGMTurn orchestrator_config (gm_turn smooth_round) = Inr True"
    by (rule good_gm_turn) (simp_all add: smooth_round_def emitting_turn_def)
  ultimately have 2: "debate_round orchestrator_config smooth_round ''M'' [''A'', ''B'', ''C'']
                        = [''M'', ''A'', ''B'', ''C'']"
    by (simp add: debate_round_def)
  from 1 2 show "debate_loop orchestrator_config ''M'' [''A'', ''B'', ''C'']
       [(True, failing_debater_round), (True, smooth_round)]
     = [[''M''], [''M'', ''A'', ''B'', ''C'']]"
    by simp
qed

section \<open>Frames of the client's handlers\<close>

lemma sendAIMessage_fields [simp]:
  "roundId (fst (sendAIMessage env s txt)) = roundId s"
  "roomId (fst (sendAIMessage env s txt)) = roomId s"
  "wsClient (fst (sendAIMessage env s txt)) = wsClient s"
  "pending_reconnects (fst (sendAIMessage env s txt)) = pending_reconnects s"
  "written (fst (sendAIMessage env s txt)) = written s"
  "processedMessages (fst (sendAIMessage env s txt)) = processedMessages s"
  "handed_to_generator (fst (sendAIMessage env s txt)) = handed_to_generator s"
  "integration_processedMessageIds (fst (sendAIMessage env s txt)) = integration_processedMessageIds s"
  "agentNumericId (fst (sendAIMessage env s txt)) = agentNumericId s"
  by (simp_all add: sendAIMessage_def Let_def split: sum.splits)

lemma sendAIMessage_unset:
  "unset (roomId s) \<or> unset (roundId s) \<Longrightarrow> fst (sendAIMessage env s txt) = s"
  by (auto simp: sendAIMessage_def)

lemma integration_processMessage_fields [simp]:
  "roundId (fst (integration_processMessage env s msg)) = roundId s"
  "roomId (fst (integration_processMessage env s msg)) = roomId s"
  "wsClient (fst (integration_processMessage env s msg)) = wsClient s"
  "pending_reconnects (fst (integration_processMessage env s msg)) = pending_reconnects s"
  "written (fst (integration_processMessage env s msg)) = written s"
  "posted (fst (integration_processMessage env s msg)) = posted s"
  "processedMessages (fst (integration_processMessage env s msg)) = processedMessages s"
  "agentNumericId (fst (integration_processMessage env s msg)) = agentNumericId s"
  by (simp_all add: integration_processMessage_def Let_def split: option.splits)

lemma reply_to_fields [simp]:
  "roundId (reply_to env s msg) = roundId s"
  "roomId (reply_to env s msg) = roomId s"
  "wsClient (reply_to env s msg) = wsClient s"
  "pending_reconnects (reply_to env s msg) = pending_reconnects s"
  "written (reply_to env s msg) = written s"
  "processedMessages (reply_to env s msg) = processedMessages s"
  "agentNumericId (reply_to env s msg) = agentNumericId s"
  by (simp_all add: reply_to_def Let_def split: option.splits)

lemma reply_to_unset:
  "unset (roomId s) \<or> unset (roundId s) \<Longrightarrow> posted (reply_to env s msg) = posted s"
  by (auto simp: reply_to_def Let_def sendAIMessage_unset split: option.splits)

lemma handleAgentMessage_fields [simp]:
  "roundId (handleAgentMessage env s m) = roundId s"
  "roomId (handleAgentMessage env s m) = roomId s"
  "wsClient (handleAgentMessage env s m) = wsClient s"
  "pending_reconnects (handleAgentMessage env s m) = pending_reconnects s"
  "written (handleAgentMessage env s m) = written s"
  by (simp_all add: handleAgentMessage_def Let_def)

lemma handleAgentMessage_unset:
  "unset (roomId s) \<or> unset (roundId s) \<Longrightarrow> posted (handleAgentMessage env s m) = posted s"
  by (auto simp: handleAgentMessage_def Let_def reply_to_unset)

lemma handleAgentMessage_marks:
  "messageId m \<in> processedMessages (handleAgentMessage env s m)"
  by (simp add: handleAgentMessage_def Let_def)

lemma handleObservation_fields [simp]:
  "roundId (handleObservation env s m) = roundId s"
  "roomId (handleObservation env s m) = roomId s"
  "wsClient (handleObservation env s m) = wsClient s"
  "pending_reconnects (handleObservation env s m) = pending_reconnects s"
  "written (handleObservation env s m) = written s"
  by (simp_all add: handleObservation_def)

lemma handleObservation_unset:
  "unset (roomId s) \<or> unset (roundId s) \<Longrightarrow> posted (handleObservation env s m) = posted s"
  by (auto simp: handleObservation_def reply_to_unset)

lemma handleWebSocketMessage_fields [simp]:
  "roundId (handleWebSocketMessage env s parsed) = roundId s"
  "roomId (handleWebSocketMessage env s parsed) = roomId s"
  "wsClient (handleWebSocketMessage env s parsed) = wsClient s"
  "pending_reconnects (handleWebSocketMessage env s parsed) = pending_reconnects s"
  by (simp_all add: handleWebSocketMessage_def Let_def split: option.splits sum.splits)

lemma handleWebSocketMessage_unset:
  "unset (roomId s) \<or> unset (roundId s) \<Longrightarrow>
   posted (handleWebSocketMessage env s parsed) = posted s"
  by (auto simp: handleWebSocketMessage_def Let_def reply_to_unset handleAgentMessage_unset
        handleObservation_unset split: option.splits sum.splits)

lemma handleWebSocketMessage_not_open:
  "ws (wsClient s) \<noteq> Some OPEN \<Longrightarrow>
   written (handleWebSocketMessage env s parsed) = written s"
  by (auto simp: handleWebSocketMessage_def Let_def ws_send_def split: option.splits sum.splits)


section \<open>Nothing is sent before the round is resolved\<close>

lemma react_fields [simp]:
  "roundId (react env s eff) = roundId s"
  by (cases eff) simp_all

lemma foldl_react_roundId [simp]:
  "roundId (foldl (react env) s effs) = roundId s"
  by (induction effs arbitrary: s) simp_all

lemma client_step_roundId:
  "unset (roundId (client_step s ev)) \<Longrightarrow> roundId (client_step s ev) = roundId s"
proof (cases ev)
  case (SetRoomAndRound now response socket_created roomId')
  assume "unset (roundId (client_step s ev))"
  with SetRoomAndRound show ?thesis
    by (auto simp: setRoomAndRound_def Let_def unset_def split: sum.splits if_splits)
qed (simp_all add: Let_def stop_def)

lemma ws_step_idle:
  assumes "ws w = None" "reconnectTimer w = None"
  shows "snd (ws_step w ev) = [] \<and> ws (fst (ws_step w ev)) = None
         \<and> reconnectTimer (fst (ws_step w ev)) = None"
  using assms by (cases ev) (simp_all add: heartbeat_callback_def)

lemma unresolved_step:
  assumes "ws (wsClient s) = None" "reconnectTimer (wsClient s) = None"
    "pending_reconnects s = 0" "written s = []" "posted s = []"
    and u: "unset (roundId s)" and u': "unset (roundId (client_step s ev))"
  shows "ws (wsClient (client_step s ev)) = None
       \<and> reconnectTimer (wsClient (client_step s ev)) = None
       \<and> pending_reconnects (client_step s ev) = 0
       \<and> written (client_step s ev) = [] \<and> posted (client_step s ev) = []"
proof (cases ev)
  case (SetRoomAndRound now response socket_created roomId')
  with u' assms(1-5) show ?thesis
    by (auto simp: setRoomAndRound_def Let_def unset_def split: sum.splits if_splits)
next
  case (SendAIMessage env msg)
  with u assms(1-5) show ?thesis by (simp add: sendAIMessage_unset)
next
  case (Deliver env parsed)
  with u assms(1-5) show ?thesis
    by (simp add: handleWebSocketMessage_unset handleWebSocketMessage_not_open)
next
  case (Channel env wev)
  from ws_step_idle [OF assms(1,2), of wev]
  have "snd (ws_step (wsClient s) wev) = []" "ws (fst (ws_step (wsClient s) wev)) = None"
    "reconnectTimer (fst (ws_step (wsClient s) wev)) = None" by simp_all
  with Channel assms(3-5) show ?thesis by (simp add: Let_def del: ws_step.simps)
next
  case (ReconnectAfter5sFires socket_created)
  with assms(1-5) show ?thesis by simp
next
  case (ProcessMessage env message)
  with assms(1-5) show ?thesis by simp
next
  case (ForgetGenerationId i)
  with assms(1-5) show ?thesis by simp
next
  case Stop
  with assms(1-5) show ?thesis by (simp add: stop_def ws_close_def close_socket_def)
qed

lemma unresolved_invariant:
  "reachable s \<Longrightarrow> unset (roundId s) \<Longrightarrow>
   ws (wsClient s) = None \<and> reconnectTimer (wsClient s) = None \<and> pending_reconnects s = 0
   \<and> written s = [] \<and> posted s = []"
proof (induction rule: reachable.induct)
  case (constructed now e w a k d s)
  then show ?case
    by (auto simp: AgentClient_new_def SharedWebSocket_new_def split: option.splits if_splits)
next
  case (step s ev)
  from step.prems have "roundId (client_step s ev) = roundId s" by (rule client_step_roundId)
  with step.prems have u: "unset (roundId s)" by simp
  with step.IH have
    "ws (wsClient s) = None" "reconnectTimer (wsClient s) = None" "pending_reconnects s = 0"
    "written s = []" "posted s = []" by simp_all
  then show ?case using u step.prems by (rule unresolved_step)
qed

text \<open>
  C6. In every state a client can reach in which the round id is not resolved, no frame
  has been written to the channel and no envelope has been posted. In such a state
  \<open>sendAIMessage\<close> throws before it builds an envelope, the handler of inbound frames
  writes and posts nothing (its heartbeat reply finds no open socket), and so does every
  other event that leaves the round id unresolved.
\<close>

theorem no_envelope_before_round_resolved:
  assumes "reachable s" and "unset (roundId s)"
  shows "written s = [] \<and> posted s = []
       \<and> sendAIMessage env s txt =
           (s, Some (Inl (Thrown ''Error'' ''Agent not initialized with room and round IDs'' None)))
       \<and> written (handleWebSocketMessage env s parsed) = []
       \<and> posted (handleWebSocketMessage env s parsed) = []
       \<and> (unset (roundId (client_step s ev)) \<longrightarrow>
            written (client_step s ev) = [] \<and> posted (client_step s ev) = [])"
proof -
  from assms have I: "ws (wsClient s) = None" "reconnectTimer (wsClient s) = None"
    "pending_reconnects s = 0" "written s = []" "posted s = []"
    using unresolved_invariant by simp_all
  have a: "sendAIMessage env s txt =
           (s, Some (Inl (Thrown ''Error'' ''Agent not initialized with room and round IDs'' None)))"
    using assms(2) by (simp add: sendAIMessage_def)
  have b: "written (handleWebSocketMessage env s parsed) = []"
    using I by (simp add: handleWebSocketMessage_not_open)
  have c: "posted (handleWebSocketMessage env s parsed) = []"
    using I assms(2) by (simp add: handleWebSocketMessage_unset)
  have d: "written (client_step s ev) = [] \<and> posted (client_step s ev) = []"
    if "unset (roundId (client_step s ev))"
  proof -
    have "reachable (client_step s ev)" using assms(1) by (rule reachable.step)
    with that show ?thesis using unresolved_invariant by simp
  qed
  from I a b c d show ?thesis by simp
qed

lemma constructed_client_new:
  "AgentClient_new 0 ''http://localhost:3000'' ''0x7E5F4552091A69125d5DfCb7b8C2659029395Bdf'' 50
     (Some example_key) ''0x7E5F4552091A69125d5DfCb7b8C2659029395Bdf'' = Inr constructed_client"
  by (simp add: AgentClient_new_def constructed_client_def example_key_def valid_privateKey_def
        is_hex_digit_def)

lemma reachable_constructed_client: "reachable constructed_client"
  using constructed_client_new by (rule reachable.constructed)

lemma reachable_joined_client: "reachable joined_client"
  unfolding joined_client_def using reachable_constructed_client by (rule reachable.step)

theorem no_envelope_before_round_resolved_witness:
  "reachable constructed_client \<and> unset (roundId constructed_client)
   \<and> posted (client_step constructed_client (SendAIMessage answering ''hello'')) = []
   \<and> written (client_step constructed_client
        (Deliver answering (Some \<lparr>messageType = Some (JStr (wire_name HEARTBEAT)),
                                  content = Some (JObj [])\<rparr>))) = []"
proof -
  have u: "unset (roundId constructed_client)" by (simp add: constructed_client_def unset_def)
  from no_envelope_before_round_resolved [OF reachable_constructed_client u,
      of answering "''hello''"]
  have "posted (client_step constructed_client (SendAIMessage answering ''hello'')) = []"
    by simp
  moreover
  from no_envelope_before_round_resolved [OF reachable_constructed_client u,
      where parsed = "Some \<lparr>messageType = Some (JStr (wire_name HEARTBEAT)),
                                  content = Some (JObj [])\<rparr>" and env = answering]
  have "written (client_step constructed_client
        (Deliver answering (Some \<lparr>messageType = Some (JStr (wire_name HEARTBEAT)),
                                  content = Some (JObj [])\<rparr>))) = []"
    by simp
  ultimately show ?thesis using reachable_constructed_client u by simp
qed


lemma joined_client_fields:
  "roomId joined_client = Some 290" "roundId joined_client = Some 578"
  "agentNumericId joined_client = 50" "processedMessages joined_client = {}"
  "posted joined_client = []" "written joined_client = []"
  "wallet_privateKey joined_client = example_key"
  "ws (wsClient joined_client) = Some CONNECTING"
  "valid_privateKey example_key"
  "integration_processedMessageIds joined_client = {}"
  "isActive (wsClient joined_client)" "reconnectAttempt (wsClient joined_client) = 0"
  "reconnectTimer (wsClient joined_client) = None"
  "onClose (ws_config (wsClient joined_client)) = ReconnectAfter5s"
  "client_isActive joined_client" "pending_reconnects joined_client = 0"
  by (simp_all add: joined_client_def constructed_client_def setRoomAndRound_def
        getActiveRound_def signMessage_def Wallet_signMessage_def valid_privateKey_def
        example_key_def is_hex_digit_def Let_def connect_def SharedWebSocket_new_def)

text \<open>
  Once the round is resolved the channel does send: the open of the socket writes the
  subscription.
\<close>

lemma joined_client_subscribes:
  "map env_messageType (written (client_step joined_client (Channel answering (SocketOpen 1001))))
     = [SUBSCRIBE_ROOM]"
  by (simp add: joined_client_fields on_open_def subscribeToRoom_def Let_def)

section \<open>Duplicate agent messages\<close>

lemma handleAgentMessage_duplicate:
  assumes "messageId m' = messageId m"
  shows "handleAgentMessage env' (handleAgentMessage env s m) m' = handleAgentMessage env s m"
proof -
  have "messageId m' \<in> processedMessages (handleAgentMessage env s m)"
    using assms handleAgentMessage_marks [of m env s] by simp
  then show ?thesis by (simp add: handleAgentMessage_def [of env'])
qed

lemma handleAgentMessage_replies_once:
  assumes "messageId m \<notin> processedMessages s"
    and "prop_opt (content m) ''agentId'' \<noteq> Some (JNum (agentNumericId s))"
    and "truthy (prop_opt (content m) ''text'')"
    and "generation_id (clock env) (prop_opt (content m) ''text'')
           \<notin> integration_processedMessageIds s"
    and "generateText env (js_String (prop_opt (content m) ''text'')) = Some reply"
    and "reply \<noteq> []"
    and "\<not> unset (roomId s)" "\<not> unset (roundId s)"
    and "valid_privateKey (wallet_privateKey s)"
    and "post_results env = Status 200 # rest"
  shows "(\<exists>e. posted (handleAgentMessage env s m) = posted s @ [e]
             \<and> env_messageType e = AGENT_MESSAGE \<and> env_sender e = Some (walletAddress s))
       \<and> generation_id (clock env) (prop_opt (content m) ''text'')
             \<in> integration_processedMessageIds (handleAgentMessage env s m)"
  using assms
  by (simp add: handleAgentMessage_def reply_to_def integration_processMessage_def
        sendAIMessage_def signMessage_def Wallet_signMessage_def Let_def)

lemma handleAgentMessage_filtered:
  assumes "generation_id (clock env) (prop_opt (content m) ''text'')
             \<in> integration_processedMessageIds s"
  shows "posted (handleAgentMessage env s m) = posted s"
  using assms
  by (simp add: handleAgentMessage_def reply_to_def integration_processMessage_def Let_def)

text \<open>
  C5 (amended). A second agent message with the same composite key is dropped without
  reprocessing: it changes nothing, hands nothing to the generator and posts nothing, so
  the two deliveries post what the first one posts. That is nothing when the message is
  the participant's own, when the generator returns nothing, or when the integration has
  already answered the same text at the same clock value; it is exactly one reply when
  the key is new, the sender is another agent, the integration has not filed the text
  at this clock value, the generator returns a text, room and round are set and the
  first post is answered with status 200.
\<close>

theorem duplicate_agent_message_dropped:
  "(messageId m' = messageId m \<longrightarrow>
      handleAgentMessage env' (handleAgentMessage env s m) m' = handleAgentMessage env s m)
   \<and> (prop_opt (content m) ''agentId'' = Some (JNum (agentNumericId s)) \<longrightarrow>
        posted (handleAgentMessage env s m) = posted s)
   \<and> (generateText env (js_String (prop_opt (content m) ''text'')) = None \<longrightarrow>
        posted (handleAgentMessage env s m) = posted s)
   \<and> (generation_id (clock env) (prop_opt (content m) ''text'')
          \<in> integration_processedMessageIds s \<longrightarrow>
        posted (handleAgentMessage env s m) = posted s)
   \<and> (messageId m \<notin> processedMessages s
        \<and> prop_opt (content m) ''agentId'' \<noteq> Some (JNum (agentNumericId s))
        \<and> truthy (prop_opt (content m) ''text'')
        \<and> generation_id (clock env) (prop_opt (content m) ''text'')
             \<notin> integration_processedMessageIds s
        \<and> generateText env (js_String (prop_opt (content m) ''text'')) = Some reply
        \<and> reply \<noteq> []
        \<and> \<not> unset (roomId s) \<and> \<not> unset (roundId s)
        \<and> valid_privateKey (wallet_privateKey s)
        \<and> post_results env = Status 200 # rest \<longrightarrow>
        (\<exists>e. posted (handleAgentMessage env s m) = posted s @ [e]
             \<and> env_messageType e = AGENT_MESSAGE \<and> env_sender e = Some (walletAddress s))
        \<and> generation_id (clock env) (prop_opt (content m) ''text'')
             \<in> integration_processedMessageIds (handleAgentMessage env s m))"
proof (intro conjI impI)
  assume "messageId m' = messageId m"
  then show "handleAgentMessage env' (handleAgentMessage env s m) m' = handleAgentMessage env s m"
    by (rule handleAgentMessage_duplicate)
next
  assume "prop_opt (content m) ''agentId'' = Some (JNum (agentNumericId s))"
  then show "posted (handleAgentMessage env s m) = posted s"
    by (simp add: handleAgentMessage_def Let_def)
next
  assume "generateText env (js_String (prop_opt (content m) ''text'')) = None"
  then show "posted (handleAgentMessage env s m) = posted s"
    by (simp add: handleAgentMessage_def reply_to_def integration_processMessage_def Let_def)
next
  assume "generation_id (clock env) (prop_opt (content m) ''text'')
          \<in> integration_processedMessageIds s"
  then show "posted (handleAgentMessage env s m) = posted s"
    by (rule handleAgentMessage_filtered)
next
  assume h: "messageId m \<notin> processedMessages s
        \<and> prop_opt (content m) ''agentId'' \<noteq> Some (JNum (agentNumericId s))
        \<and> truthy (prop_opt (content m) ''text'')
        \<and> generation_id (clock env) (prop_opt (content m) ''text'')
             \<notin> integration_processedMessageIds s
        \<and> generateText env (js_String (prop_opt (content m) ''text'')) = Some reply
        \<and> reply \<noteq> []
        \<and> \<not> unset (roomId s) \<and> \<not> unset (roundId s)
        \<and> valid_privateKey (wallet_privateKey s)
        \<and> post_results env = Status 200 # rest"
  have r: "(\<exists>e. posted (handleAgentMessage env s m) = posted s @ [e]
             \<and> env_messageType e = AGENT_MESSAGE \<and> env_sender e = Some (walletAddress s))
       \<and> generation_id (clock env) (prop_opt (content m) ''text'')
             \<in> integration_processedMessageIds (handleAgentMessage env s m)"
    by (rule handleAgentMessage_replies_once [where reply = reply and rest = rest])
       (use h in blast)+
  from r show "\<exists>e. posted (handleAgentMessage env s m) = posted s @ [e]
             \<and> env_messageType e = AGENT_MESSAGE \<and> env_sender e = Some (walletAddress s)"
    by (rule conjunct1)
  from r show "generation_id (clock env) (prop_opt (content m) ''text'')
             \<in> integration_processedMessageIds (handleAgentMessage env s m)"
    by (rule conjunct2)
qed

lemma agent_message_props:
  "prop_opt (content (agent_message ts a t)) ''agentId'' = Some (JNum a)"
  "prop_opt (content (agent_message ts a t)) ''text'' = Some (JStr t)"
  by (simp_all add: agent_message_def)

theorem duplicate_agent_message_dropped_witness:
  "length (posted (handleAgentMessage answering
             (handleAgentMessage answering joined_client (agent_message 1700 56 ''Bitcoin''))
             (agent_message 1700 56 ''Bitcoin''))) = 1
   \<and> posted (handleAgentMessage answering joined_client (agent_message 1700 50 ''Bitcoin'')) = []
   \<and> posted (handleAgentMessage silent joined_client (agent_message 1700 56 ''Bitcoin'')) = []
   \<and> length (posted (handleAgentMessage answering
             (handleAgentMessage answering joined_client (agent_message 1700 56 ''Bitcoin''))
             (agent_message 1800 57 ''Bitcoin''))) = 1"
proof -
  let ?m = "agent_message 1700 56 ''Bitcoin''"
  let ?own = "agent_message 1700 50 ''Bitcoin''"
  let ?other = "agent_message 1800 57 ''Bitcoin''"
  let ?s1 = "handleAgentMessage answering joined_client ?m"
  have dup: "handleAgentMessage answering ?s1 ?m = ?s1"
    using duplicate_agent_message_dropped [of ?m ?m answering answering joined_client] by simp
  have first: "(\<exists>e. posted ?s1 = posted joined_client @ [e]
             \<and> env_messageType e = AGENT_MESSAGE
             \<and> env_sender e = Some (walletAddress joined_client))
        \<and> generation_id (clock answering) (prop_opt (content ?m) ''text'')
             \<in> integration_processedMessageIds ?s1"
    using duplicate_agent_message_dropped
      [where m = ?m and env = answering and s = joined_client and reply = "''I disagree''"
         and rest = "[]"]
    by (simp add: joined_client_fields agent_message_props answering_def unset_def)
  then have len: "length (posted ?s1) = 1"
    by (auto simp: joined_client_fields)
  with dup have 1: "length (posted (handleAgentMessage answering ?s1 ?m)) = 1"
    by simp
  have 2: "posted (handleAgentMessage answering joined_client ?own) = []"
    using duplicate_agent_message_dropped [where m = ?own and env = answering and s = joined_client]
    by (simp add: joined_client_fields agent_message_props)
  have 3: "posted (handleAgentMessage silent joined_client ?m) = []"
    using duplicate_agent_message_dropped [where m = ?m and env = silent and s = joined_client]
    by (simp add: joined_client_fields agent_message_props silent_def)
  from first have "generation_id (clock answering) (prop_opt (content ?other) ''text'')
             \<in> integration_processedMessageIds ?s1"
    by (simp add: agent_message_props)
  then have "posted (handleAgentMessage answering ?s1 ?other) = posted ?s1"
    using duplicate_agent_message_dropped [where m = ?other and env = answering and s = ?s1]
    by blast
  with len have 4: "length (posted (handleAgentMessage answering ?s1 ?other)) = 1"
    by simp
  from 1 2 3 4 show ?thesis by (intro conjI)
qed

text \<open>
  C5 as stated fails: two deliveries of one key produce no reply when the message is the
  participant's own, and none when the generator returns nothing for the first delivery,
  the second being dropped although nothing was sent.
\<close>

theorem duplicate_agent_message_counterexample:
  "posted (handleAgentMessage answering
            (handleAgentMessage answering joined_client (agent_message 1700 50 ''Bitcoin''))
            (agent_message 1700 50 ''Bitcoin'')) = []
   \<and> posted (handleAgentMessage answering
            (handleAgentMessage silent joined_client (agent_message 1700 56 ''Bitcoin''))
            (agent_message 1700 56 ''Bitcoin'')) = []"
proof
  let ?own = "agent_message 1700 50 ''Bitcoin''"
  have "handleAgentMessage answering (handleAgentMessage answering joined_client ?own) ?own
          = handleAgentMessage answering joined_client ?own"
    by (rule handleAgentMessage_duplicate) simp
  moreover have "posted (handleAgentMessage answering joined_client ?own) = []"
    by (simp add: handleAgentMessage_def Let_def joined_client_fields agent_message_props)
  ultimately show "posted (handleAgentMessage answering
            (handleAgentMessage answering joined_client ?own) ?own) = []" by simp
next
  let ?m = "agent_message 1700 56 ''Bitcoin''"
  have "handleAgentMessage answering (handleAgentMessage silent joined_client ?m) ?m
          = handleAgentMessage silent joined_client ?m"
    by (rule handleAgentMessage_duplicate) simp
  moreover have "posted (handleAgentMessage silent joined_client ?m) = []"
    by (simp add: handleAgentMessage_def reply_to_def integration_processMessage_def Let_def
          joined_client_fields agent_message_props silent_def)
  ultimately show "posted (handleAgentMessage answering
            (handleAgentMessage silent joined_client ?m) ?m) = []" by simp
qed

section \<open>Reconnects started by the client\<close>

text \<open>
  C3 as stated fails: the \<open>onClose\<close> handler that \<open>setRoomAndRound\<close> installs
  reconnects after five seconds on its own. With sockets that fail at once, the channel's
  timers fire after one and after three seconds; the timer of 4000 is pending when the
  client's first five-second timer fires, and its call of \<open>connect\<close> cancels that timer
  without advancing the counter. The fourth delay set after consecutive failed attempts is
  4000 again, not 8000.
\<close>

theorem reconnect_backoff_counterexample:
  "client_delays joined_client
     [Channel answering (SocketOpen 1001), Channel answering SocketClose,
      Channel answering (ReconnectTimerFires True), Channel answering SocketClose,
      Channel answering (ReconnectTimerFires True), Channel answering SocketClose,
      ReconnectAfter5sFires True, Channel answering SocketClose]
   = [1000, 2000, 4000, 4000]"
  by (simp add: joined_client_fields on_open_def subscribeToRoom_def handleDisconnect_def
        reconnect_callback_def connect_def Let_def MAX_RECONNECT_DELAY_def)

end
